theory Spec2Isabelle
  imports Complex_Main "HOL-Library.Word" "HOL-Library.AList" "HOL-Library.Log_Nat"
begin

text \<open>
  A model of the blog comment service: the HTTP worker (\<open>src/index.ts\<close>: the CORS
  wrapper, the POST and GET branches of \<open>fetch\<close> and the tree query), its email worker
  (\<open>queue\<close> of the same file) and the Telegram notifier (the \<open>queue\<close> handler with
  \<open>TELEGRAM_MESSAGE_LENGTH_LIMIT\<close>). What the code finds outside itself (the store's
  errors, the queues, the two providers, the renderer, the clock) is a parameter of the
  functions; what it changes is a state that they take and return. Fields that share a
  name in the source carry the initials of their type here (\<open>r_\<close> for a row of the table,
  \<open>c_\<close> for a node of the tree, \<open>tg_\<close> and \<open>em_\<close> for the properties in the two
  queue messages).
\<close>

section \<open>JavaScript values\<close>

text \<open>
  A JavaScript string is a sequence of UTF-16 code units, and \<open>length\<close>,
  \<open>substring\<close>, \<open>startsWith\<close> and \<open>===\<close> work on code units. ASCII literals of the
  source are written \<open>js ''...''\<close>. Numbers that the program only stores and compares
  (ids, timestamps) are integers; the level of a comment, which it computes, is a
  JavaScript number (a double), defined with the numbers below.
\<close>

type_synonym jsstring = "16 word list"

definition js :: "string \<Rightarrow> jsstring" where
  "js s = map of_char s"

text \<open>Truthiness of a string value that may be \<open>null\<close>/\<open>undefined\<close> (\<open>None\<close>).\<close>

fun truthy :: "jsstring option \<Rightarrow> bool" where
  "truthy None = False"
| "truthy (Some s) = (s \<noteq> [])"

text \<open>\<open>String.prototype.substring(start, end)\<close>: both indices are clamped to
  \<open>[0, length]\<close> and swapped when \<open>start > end\<close>.\<close>

definition substring :: "jsstring \<Rightarrow> int \<Rightarrow> int \<Rightarrow> jsstring" where
  "substring s start end =
     (let len = int (length s);
          finalStart = min (max start 0) len;
          finalEnd = min (max end 0) len;
          from = min finalStart finalEnd;
          to = max finalStart finalEnd
      in take (nat (to - from)) (drop (nat from) s))"

definition startsWith :: "jsstring \<Rightarrow> jsstring \<Rightarrow> bool" where
  "startsWith s p = (take (length p) s = p)"

definition endsWith :: "jsstring \<Rightarrow> jsstring \<Rightarrow> bool" where
  "endsWith s p = (length p \<le> length s \<and> drop (length s - length p) s = p)"

text \<open>\<open>s.split(sep)\<close> for a separator of one code unit; the empty string splits
  into one empty piece.\<close>

fun split :: "16 word \<Rightarrow> jsstring \<Rightarrow> jsstring list" where
  "split sep [] = [[]]"
| "split sep (c # cs) =
     (if c = sep then [] # split sep cs
      else (case split sep cs of
              [] \<Rightarrow> [[c]]
            | piece # pieces \<Rightarrow> (c # piece) # pieces))"

text \<open>The code units \<open>String.prototype.trim\<close> removes (and that \<open>Number\<close> skips):
  ECMAScript's WhiteSpace and LineTerminator.\<close>

definition isWhiteSpace :: "16 word \<Rightarrow> bool" where
  "isWhiteSpace c =
     (c \<in> {0x9, 0xA, 0xB, 0xC, 0xD, 0x20, 0xA0, 0x1680, 0x2028, 0x2029, 0x202F, 0x205F,
           0x3000, 0xFEFF}
      \<or> (0x2000 \<le> c \<and> c \<le> 0x200A))"

definition trim :: "jsstring \<Rightarrow> jsstring" where
  "trim s = rev (dropWhile isWhiteSpace (rev (dropWhile isWhiteSpace s)))"

section \<open>Responses and the CORS wrapper\<close>

text \<open>
  A header set is an association list from header name to value; \<open>Headers.set\<close>
  replaces the value of a name that is present and appends otherwise. Only the headers
  the program sets itself are modelled, under the spelling the program uses. A response
  body is either a text or the JSON serialisation of a list of comment trees.
\<close>

type_synonym headers = "(jsstring \<times> jsstring) list"

datatype Comment = Comment
  (c_id: int)
  (c_author: jsstring)
  (c_email: jsstring)
  (c_website: jsstring)
  (c_content: jsstring)
  (c_comment_timestamp_ms: int)
  (children: "Comment list")

datatype body = Text jsstring | Json "Comment list"

record response =
  body :: body
  status :: nat
  headers :: headers

text \<open>\<open>new Response(body, init)\<close>: the status defaults to 200.\<close>

definition Response :: "body \<Rightarrow> nat option \<Rightarrow> headers \<Rightarrow> response" where
  "Response b st hs = \<lparr>body = b, status = (case st of None \<Rightarrow> 200 | Some n \<Rightarrow> n), headers = hs\<rparr>"

text \<open>
  The module-global object \<open>corsHeaders\<close> has five fields, of which the program only
  ever assigns \<open>Access-Control-Allow-Origin\<close>; the state of the object is the value of
  that field, the empty string at load time. \<open>corsHeaders_entries\<close> is
  \<open>Object.entries(corsHeaders)\<close> in that state.
\<close>

definition corsHeaders_init :: jsstring where
  "corsHeaders_init = []"

definition corsHeaders_entries :: "jsstring \<Rightarrow> headers" where
  "corsHeaders_entries allow_origin =
     [(js ''Access-Control-Allow-Origin'', allow_origin),
      (js ''Access-Control-Allow-Methods'', js ''GET,POST,OPTIONS''),
      (js ''Access-Control-Max-Age'', js ''86400''),
      (js ''Access-Control-Allow-Headers'', js ''Content-Type, Range, X-Request-With''),
      (js ''Access-Control-Expose-Headers'', js ''Content-Length, Content-Range'')]"

text \<open>
  The regular-expression engine is a parameter: \<open>rx pattern subject\<close> is
  \<open>RegExp(pattern).test(subject)\<close>. The patterns configured in the allow-list are taken
  to compile.
\<close>

type_synonym regexp = "jsstring \<Rightarrow> jsstring \<Rightarrow> bool"

text \<open>The \<open>for\<close> loop of \<open>setCorsHeaderToResponse\<close> that computes \<open>is_allowed\<close>; the
  third argument is the whole list (for \<open>includes\<close>), the fourth what is left of it.\<close>

fun is_allowed :: "regexp \<Rightarrow> jsstring \<Rightarrow> jsstring list \<Rightarrow> jsstring list \<Rightarrow> bool" where
  "is_allowed rx origin allowedOrigins [] = False"
| "is_allowed rx origin allowedOrigins (allowedOrigin # rest) =
     (if allowedOrigin = js ''*'' then True
      else if startsWith allowedOrigin (js ''/'') \<and> endsWith allowedOrigin (js ''/'') then
        (if rx (substring allowedOrigin 1 (int (length allowedOrigin) - 1)) origin then True
         else is_allowed rx origin allowedOrigins rest)
      else if origin = allowedOrigin then
        (if origin \<in> set allowedOrigins then True
         else is_allowed rx origin allowedOrigins rest)
      else is_allowed rx origin allowedOrigins rest)"

text \<open>
  \<open>setCorsHeaderToResponse\<close> takes the request's \<open>Origin\<close> header, the response to wrap,
  the allow-list and the current state of the global \<open>corsHeaders\<close>; it returns the
  response and the new state of the global.
\<close>

definition setCorsHeaderToResponse ::
  "regexp \<Rightarrow> jsstring option \<Rightarrow> response \<Rightarrow> jsstring list \<Rightarrow> jsstring \<Rightarrow> response \<times> jsstring" where
  "setCorsHeaderToResponse rx origin resp allowedOrigins corsHeaders =
     (case origin of
        None \<Rightarrow> (Response (Text (js ''Origin header not found'')) (Some 400) [], corsHeaders)
      | Some orig \<Rightarrow>
          if orig = [] then
            (Response (Text (js ''Origin header not found'')) (Some 400) [], corsHeaders)
          else
            (let corsHeaders' =
                   (if is_allowed rx orig allowedOrigins allowedOrigins then orig
                    else corsHeaders);
                 new_headers =
                   fold (\<lambda>(key, val). AList.update key val) (corsHeaders_entries corsHeaders')
                     (headers resp)
             in (\<lparr>body = body resp, status = status resp, headers = new_headers\<rparr>, corsHeaders')))"

section \<open>Numbers read from strings\<close>

text \<open>
  \<open>Number(value)\<close> and \<open>Number.isInteger\<close> decide which ids the GET branch accepts. A
  number is \<open>NaN\<close>, an infinity, or a finite double given by its exact rational value.
  \<open>Number\<close> of a string follows ECMAScript's StringToNumber: surrounding white space is
  skipped, the empty string is \<open>0\<close>, and the rest must be a decimal literal (optional
  sign, \<open>Infinity\<close> or digits with optional fraction and exponent) or an unsigned
  binary, octal or hexadecimal integer literal; its mathematical value is rounded to the
  nearest double, ties to even.
\<close>

datatype number = NaN | PosInfinity | NegInfinity | Finite rat

datatype val = Null | Str jsstring | Num number

definition isDigit :: "16 word \<Rightarrow> bool" where
  "isDigit c = (0x30 \<le> c \<and> c \<le> 0x39)"

text \<open>The value of a digit of a literal in base up to 16, when it is one.\<close>

definition digitValue :: "16 word \<Rightarrow> nat option" where
  "digitValue c =
     (if 0x30 \<le> c \<and> c \<le> 0x39 then Some (unat c - 0x30)
      else if 0x61 \<le> c \<and> c \<le> 0x66 then Some (unat c - 0x61 + 10)
      else if 0x41 \<le> c \<and> c \<le> 0x46 then Some (unat c - 0x41 + 10)
      else None)"

text \<open>A non-empty run of digits of the given base, as a natural number.\<close>

fun digits :: "nat \<Rightarrow> nat \<Rightarrow> jsstring \<Rightarrow> nat option" where
  "digits b acc [] = Some acc"
| "digits b acc (c # cs) =
     (case digitValue c of
        None \<Rightarrow> None
      | Some d \<Rightarrow> if d < b then digits b (acc * b + d) cs else None)"

definition DigitsLiteral :: "nat \<Rightarrow> jsstring \<Rightarrow> nat option" where
  "DigitsLiteral b s = (if s = [] then None else digits b 0 s)"

definition SignedInteger :: "jsstring \<Rightarrow> int option" where
  "SignedInteger s =
     (case s of
        [] \<Rightarrow> None
      | c # cs \<Rightarrow>
          if c = 0x2B then map_option int (DigitsLiteral 10 cs)
          else if c = 0x2D then map_option (\<lambda>n. - int n) (DigitsLiteral 10 cs)
          else map_option int (DigitsLiteral 10 s))"

text \<open>What follows the digits of a decimal literal: nothing, or an exponent part.\<close>

definition ExponentPart_opt :: "jsstring \<Rightarrow> int option" where
  "ExponentPart_opt s =
     (case s of
        [] \<Rightarrow> Some 0
      | c # cs \<Rightarrow> if c = 0x65 \<or> c = 0x45 then SignedInteger cs else None)"

definition pow10 :: "int \<Rightarrow> rat" where
  "pow10 e = (if 0 \<le> e then 10 ^ nat e else 1 / 10 ^ nat (- e))"

definition pow2 :: "int \<Rightarrow> rat" where
  "pow2 e = (if 0 \<le> e then 2 ^ nat e else 1 / 2 ^ nat (- e))"

text \<open>The mathematical value of \<open>digits [. digits] [exponent]\<close>, \<open>. digits [exponent]\<close>;
  \<open>None\<close> when the string is not such a literal.\<close>

definition StrUnsignedDecimalLiteral :: "jsstring \<Rightarrow> rat option" where
  "StrUnsignedDecimalLiteral s =
     (let ip = takeWhile isDigit s;
          r1 = dropWhile isDigit s;
          dot = (r1 \<noteq> [] \<and> hd r1 = 0x2E);
          fp = (if dot then takeWhile isDigit (tl r1) else []);
          r2 = (if dot then dropWhile isDigit (tl r1) else r1)
      in if ip = [] \<and> fp = [] then None
         else (case (digits 10 0 (ip @ fp), ExponentPart_opt r2) of
                 (Some n, Some e) \<Rightarrow> Some (of_nat n * pow10 (e - int (length fp)))
               | _ \<Rightarrow> None))"

text \<open>A parsed numeric literal: an infinity (\<open>True\<close> for the negative one) or a value.\<close>

datatype literal = LitInfinity bool | LitValue rat

definition StrDecimalLiteral :: "jsstring \<Rightarrow> literal option" where
  "StrDecimalLiteral s =
     (let neg = (s \<noteq> [] \<and> hd s = 0x2D);
          u = (if s \<noteq> [] \<and> (hd s = 0x2B \<or> hd s = 0x2D) then tl s else s)
      in if u = js ''Infinity'' then Some (LitInfinity neg)
         else map_option (\<lambda>q. LitValue (if neg then - q else q)) (StrUnsignedDecimalLiteral u))"

definition NonDecimalIntegerLiteral :: "jsstring \<Rightarrow> literal option option" where
  "NonDecimalIntegerLiteral s =
     (if startsWith s (js ''0x'') \<or> startsWith s (js ''0X'')
        then Some (map_option (\<lambda>n. LitValue (of_nat n)) (DigitsLiteral 16 (drop 2 s)))
      else if startsWith s (js ''0o'') \<or> startsWith s (js ''0O'')
        then Some (map_option (\<lambda>n. LitValue (of_nat n)) (DigitsLiteral 8 (drop 2 s)))
      else if startsWith s (js ''0b'') \<or> startsWith s (js ''0B'')
        then Some (map_option (\<lambda>n. LitValue (of_nat n)) (DigitsLiteral 2 (drop 2 s)))
      else None)"

definition StrNumericLiteral :: "jsstring \<Rightarrow> literal option" where
  "StrNumericLiteral s =
     (case NonDecimalIntegerLiteral s of Some r \<Rightarrow> r | None \<Rightarrow> StrDecimalLiteral s)"

definition round_half_even :: "rat \<Rightarrow> int" where
  "round_half_even q =
     (let f = \<lfloor>q\<rfloor>; r = q - of_int f
      in if r < 1 / 2 then f else if 1 / 2 < r then f + 1 else if even f then f else f + 1)"

text \<open>For \<open>q > 0\<close>: the exponent \<open>e\<close> of the double nearest to \<open>q\<close>, written
  \<open>m * 2 ^ e\<close> with \<open>m < 2 ^ 53\<close>; subnormals share the least exponent.\<close>

definition double_exponent :: "rat \<Rightarrow> int" where
  "double_exponent q =
     (let (a, b) = quotient_of q;
          k = int (floorlog 2 (nat a)) - int (floorlog 2 (nat b));
          fl = (if pow2 k \<le> q then k else k - 1)
      in max (fl - 52) (- 1074))"

definition round_double :: "rat \<Rightarrow> number" where
  "round_double q =
     (if q = 0 then Finite 0
      else (let a = \<bar>q\<bar>;
                e = double_exponent a;
                v = of_int (round_half_even (a / pow2 e)) * pow2 e
            in if pow2 1024 \<le> v then (if 0 < q then PosInfinity else NegInfinity)
               else Finite (if 0 < q then v else - v)))"

text \<open>The operator \<open>+\<close> on two numbers: the exact sum rounded to the nearest double,
  with the cases of \<open>NaN\<close> and the infinities.\<close>

fun number_plus :: "number \<Rightarrow> number \<Rightarrow> number" where
  "number_plus (Finite a) (Finite b) = round_double (a + b)"
| "number_plus NaN y = NaN"
| "number_plus x NaN = NaN"
| "number_plus PosInfinity NegInfinity = NaN"
| "number_plus NegInfinity PosInfinity = NaN"
| "number_plus PosInfinity y = PosInfinity"
| "number_plus x PosInfinity = PosInfinity"
| "number_plus NegInfinity y = NegInfinity"
| "number_plus x NegInfinity = NegInfinity"

definition StringToNumber :: "jsstring \<Rightarrow> number" where
  "StringToNumber s =
     (let t = trim s
      in if t = [] then Finite 0
         else (case StrNumericLiteral t of
                 None \<Rightarrow> NaN
               | Some (LitInfinity neg) \<Rightarrow> (if neg then NegInfinity else PosInfinity)
               | Some (LitValue q) \<Rightarrow> round_double q))"

text \<open>\<open>Number(value)\<close>; \<open>null\<close> converts to \<open>0\<close>.\<close>

fun Number :: "val \<Rightarrow> number" where
  "Number Null = Finite 0"
| "Number (Str s) = StringToNumber s"
| "Number (Num n) = n"

text \<open>\<open>Number.isInteger(value)\<close>: false for everything that is not a number.\<close>

fun Number_isInteger :: "val \<Rightarrow> bool" where
  "Number_isInteger (Num (Finite q)) = (of_int \<lfloor>q\<rfloor> = q)"
| "Number_isInteger _ = False"


section \<open>The comments table\<close>

text \<open>
  A row of table \<open>comments\<close> (\<open>d1_statements/create_table.sql\<close>); the table is the list
  of its rows in store order. \<open>id\<close> is \<open>INTEGER PRIMARY KEY AUTOINCREMENT\<close>: an
  inserted row gets an id one above the largest id in use, and at least 1. Rows are never
  deleted. \<open>level\<close> holds the number that the program reads from the column and binds to
  it.
\<close>

record comments_row =
  r_id :: int
  r_article_id :: jsstring
  r_parent_id :: int
  r_level :: number
  r_author_name :: jsstring
  r_author_email :: jsstring
  r_author_website :: jsstring
  r_markdown_content :: jsstring
  r_html_content :: jsstring
  r_comment_timestamp_ms :: int
  r_uuid :: jsstring

definition autoincrement :: "comments_row list \<Rightarrow> int" where
  "autoincrement rows = 1 + fold max (map r_id rows) 0"

text \<open>\<open>SELECT ... WHERE id = ?1 LIMIT 1\<close> and \<open>SELECT id ... WHERE uuid = ?1 LIMIT 1\<close>
  with \<open>.first()\<close>: the first matching row, or \<open>null\<close>. These two reads are taken to
  succeed; the errors the code tests for are those of the INSERT and of \<open>.all()\<close>.\<close>

definition first_by_id :: "comments_row list \<Rightarrow> int \<Rightarrow> comments_row option" where
  "first_by_id rows n = find (\<lambda>r. r_id r = n) rows"

definition first_by_uuid :: "comments_row list \<Rightarrow> jsstring \<Rightarrow> comments_row option" where
  "first_by_uuid rows u = find (\<lambda>r. r_uuid r = u) rows"

text \<open>
  The base of a tree query: \<open>recursiveQuery\<close> is only ever called with base type
  \<open>'article'\<close> and the \<open>comment_base_id\<close> parameter (a string, or \<open>null\<close> when the
  parameter is absent), or with base type \<open>'comment'\<close> and an integer.
\<close>

datatype base = BaseArticle "jsstring option" | BaseComment int

text \<open>The rows the two prepared statements of \<open>recursiveQuery\<close> select; a \<open>null\<close>
  parameter equals no \<open>article_id\<close>.\<close>

fun query_all :: "comments_row list \<Rightarrow> base \<Rightarrow> comments_row list" where
  "query_all rows (BaseArticle None) = []"
| "query_all rows (BaseArticle (Some a)) =
     filter (\<lambda>r. r_article_id r = a \<and> r_parent_id r = 0) rows"
| "query_all rows (BaseComment n) = filter (\<lambda>r. r_parent_id r = n) rows"

section \<open>The tree query\<close>

datatype error = DatabaseError jsstring | Error

text \<open>The tree node \<open>recursiveQuery\<close> builds from a result row, before its children
  are attached.\<close>

definition comment_of :: "comments_row \<Rightarrow> Comment list \<Rightarrow> Comment" where
  "comment_of result subcomments =
     Comment (r_id result) (r_author_name result) (r_author_email result)
       (r_author_website result) (r_html_content result) (r_comment_timestamp_ms result)
       subcomments"

text \<open>
  \<open>recursiveQuery\<close> calls itself once for every row it returns, to any depth, so it
  is defined with fuel: \<open>None\<close> means that the call has not returned within the given
  number of nested calls. \<open>all_error\<close> gives the \<open>error\<close> field of the result of
  \<open>.all()\<close> for each base (\<open>None\<close> when the read succeeds). \<open>results_loop\<close> is the
  \<open>for\<close> loop over \<open>record.results\<close>.
\<close>

fun recursiveQuery ::
    "nat \<Rightarrow> (base \<Rightarrow> jsstring option) \<Rightarrow> comments_row list \<Rightarrow> base \<Rightarrow> bool
      \<Rightarrow> (error + Comment list) option"
  and results_loop ::
    "nat \<Rightarrow> (base \<Rightarrow> jsstring option) \<Rightarrow> comments_row list \<Rightarrow> comments_row list \<Rightarrow> bool
      \<Rightarrow> (error + Comment list) option" where
  "recursiveQuery 0 all_error db b is_recursive = None"
| "recursiveQuery (Suc fuel) all_error db b is_recursive =
     (case all_error b of
        Some e \<Rightarrow> Some (Inl (DatabaseError e))
      | None \<Rightarrow> results_loop fuel all_error db (query_all db b) is_recursive)"
| "results_loop fuel all_error db [] is_recursive = Some (Inr [])"
| "results_loop fuel all_error db (result # results) is_recursive =
     (if is_recursive then
        (case recursiveQuery fuel all_error db (BaseComment (r_id result)) True of
           None \<Rightarrow> None
         | Some (Inl e) \<Rightarrow> Some (Inl e)
         | Some (Inr subcomments) \<Rightarrow>
             (case results_loop fuel all_error db results is_recursive of
                None \<Rightarrow> None
              | Some (Inl e) \<Rightarrow> Some (Inl e)
              | Some (Inr comments) \<Rightarrow> Some (Inr (comment_of result subcomments # comments))))
      else
        (case results_loop fuel all_error db results is_recursive of
           None \<Rightarrow> None
         | Some (Inl e) \<Rightarrow> Some (Inl e)
         | Some (Inr comments) \<Rightarrow> Some (Inr (comment_of result [] # comments))))"

section \<open>The HTTP worker\<close>

record PostCommentEvent =
  article_id :: jsstring
  article_original_url :: jsstring
  parent_comment_id :: "int option"
  author :: jsstring
  email :: "jsstring option"
  website :: "jsstring option"
  content :: jsstring
  timestamp_ms :: "int option"

record TelegramCommentProperties =
  tg_article_id :: jsstring
  tg_article_original_url :: jsstring
  tg_comment_id :: int
  tg_comment_timestamp :: int
  tg_author_name :: jsstring
  tg_author_email :: "jsstring option"
  tg_markdown_content :: jsstring

record EmailCommentProperties =
  em_comment_id :: int
  em_comment_timestamp :: int
  em_author_name :: jsstring
  em_author_email :: "jsstring option"
  em_markdown_content :: jsstring

record SendCommentNotificationEmailEvent =
  comment :: EmailCommentProperties
  reply_to_comment :: "EmailCommentProperties option"

text \<open>
  What a request finds outside the program and cannot change: the configuration, the
  markdown renderer (taken to return for every input), the regular-expression engine,
  the UUID and the clock it draws, the \<open>error\<close> fields the store reports for the INSERT
  and for the reads of the tree query (\<open>None\<close> when there is none), and whether each of
  the two queues rejects (throws on) a send.
\<close>

record env =
  ALLOWED_ORIGINS :: jsstring
  regexp_test :: regexp
  markdownToHtml :: "jsstring \<Rightarrow> jsstring"
  randomUUID :: jsstring
  getTime :: int
  insert_error :: "jsstring option"
  all_error :: "base \<Rightarrow> jsstring option"
  MESSAGE_QUEUE_rejects :: bool
  EMAIL_QUEUE_rejects :: bool

text \<open>What requests change: the table, the two queues and the module-global
  \<open>corsHeaders\<close>.\<close>

record world =
  COMMENT_DB :: "comments_row list"
  MESSAGE_QUEUE :: "TelegramCommentProperties list"
  EMAIL_QUEUE :: "SendCommentNotificationEmailEvent list"
  corsHeaders :: jsstring

text \<open>
  A request: the path of its URL (\<open>None\<close> when \<open>URL.parse\<close> gives \<open>null\<close>), its
  method, its \<open>Origin\<close> header, its body read as JSON (\<open>None\<close> when \<open>req.json()\<close>
  throws) and the three query parameters the GET branch reads.
\<close>

record request =
  pathname :: "jsstring option"
  http_method :: jsstring
  Origin :: "jsstring option"
  json :: "PostCommentEvent option"
  comment_base_type :: "jsstring option"
  comment_base_id :: "jsstring option"
  is_recursive :: "jsstring option"

text \<open>What a branch of \<open>fetch\<close> hands to \<open>getReponse\<close>: body, status and headers.\<close>

type_synonym reply = "body \<times> nat option \<times> headers"

definition getReponse :: "env \<Rightarrow> request \<Rightarrow> reply \<Rightarrow> world \<Rightarrow> response \<times> world" where
  "getReponse e req r w =
     (case r of (b, st, hs) \<Rightarrow>
        (case setCorsHeaderToResponse (regexp_test e) (Origin req) (Response b st hs)
                (map trim (split 0x3B (ALLOWED_ORIGINS e))) (corsHeaders w) of
           (resp, ch) \<Rightarrow> (resp, w\<lparr>corsHeaders := ch\<rparr>)))"

text \<open>The row the INSERT statement binds, with the id the table assigns.\<close>

definition inserted_row :: "env \<Rightarrow> PostCommentEvent \<Rightarrow> number \<Rightarrow> comments_row list \<Rightarrow> comments_row" where
  "inserted_row e event level rows =
     \<lparr>r_id = autoincrement rows,
      r_article_id = article_id event,
      r_parent_id = (case parent_comment_id event of None \<Rightarrow> 0 | Some n \<Rightarrow> n),
      r_level = level,
      r_author_name = author event,
      r_author_email = (case email event of None \<Rightarrow> [] | Some a \<Rightarrow> a),
      r_author_website = (case website event of None \<Rightarrow> [] | Some a \<Rightarrow> a),
      r_markdown_content = content event,
      r_html_content = markdownToHtml e (content event),
      r_comment_timestamp_ms = getTime e,
      r_uuid = randomUUID e\<rparr>"

definition comment_properties_of ::
  "env \<Rightarrow> PostCommentEvent \<Rightarrow> comments_row \<Rightarrow> TelegramCommentProperties" where
  "comment_properties_of e event last_insert_id =
     \<lparr>tg_article_id = article_id event,
      tg_article_original_url = article_original_url event,
      tg_comment_id = r_id last_insert_id,
      tg_comment_timestamp = getTime e,
      tg_author_name = author event,
      tg_author_email = email event,
      tg_markdown_content = content event\<rparr>"

text \<open>The email event: the same comment properties, read at the type of the email
  worker, and the parent's row when there is one.\<close>

definition email_event_of ::
  "TelegramCommentProperties \<Rightarrow> comments_row option \<Rightarrow> SendCommentNotificationEmailEvent" where
  "email_event_of comment_properties parent_comment =
     \<lparr>comment =
        \<lparr>em_comment_id = tg_comment_id comment_properties,
         em_comment_timestamp = tg_comment_timestamp comment_properties,
         em_author_name = tg_author_name comment_properties,
         em_author_email = tg_author_email comment_properties,
         em_markdown_content = tg_markdown_content comment_properties\<rparr>,
      reply_to_comment =
        (case parent_comment of
           None \<Rightarrow> None
         | Some p \<Rightarrow>
             Some \<lparr>em_comment_id = r_id p,
                   em_comment_timestamp = r_comment_timestamp_ms p,
                   em_author_name = r_author_name p,
                   em_author_email = Some (r_author_email p),
                   em_markdown_content = r_markdown_content p\<rparr>)\<rparr>"

text \<open>
  The parent check of the POST branch: the reply of its early return, or the level of
  the new comment and the parent's row (\<open>null\<close> without a parent). A
  \<open>parent_comment_id\<close> that is absent or \<open>0\<close> is falsy. \<open>parent_comment.level + 1\<close> is
  an addition of numbers.
\<close>

definition check_parent ::
  "comments_row list \<Rightarrow> PostCommentEvent \<Rightarrow> reply + number \<times> comments_row option" where
  "check_parent rows event =
     (case parent_comment_id event of
        None \<Rightarrow> Inr (Finite 0, None)
      | Some n \<Rightarrow>
          if n = 0 then Inr (Finite 0, None)
          else (case first_by_id rows n of
                  None \<Rightarrow> Inl (Text (js ''Parent comment not found''), Some 404, [])
                | Some parent_comment \<Rightarrow>
                    Inr (number_plus (r_level parent_comment) (Finite 1), Some parent_comment)))"

text \<open>
  The POST branch after the body is read, up to the call of \<open>getReponse\<close>: the reply
  it returns, or the exception it throws, and the world it leaves.
\<close>

definition post_comment :: "env \<Rightarrow> PostCommentEvent \<Rightarrow> world \<Rightarrow> (error + reply) \<times> world" where
  "post_comment e event w =
     (case check_parent (COMMENT_DB w) event of
        Inl r \<Rightarrow> (Inr r, w)
      | Inr (level, parent_comment) \<Rightarrow>
          (case insert_error e of
             Some err \<Rightarrow> (Inl (DatabaseError err), w)
           | None \<Rightarrow>
               (let w1 = w\<lparr>COMMENT_DB :=
                             COMMENT_DB w @ [inserted_row e event level (COMMENT_DB w)]\<rparr>
                in case first_by_uuid (COMMENT_DB w1) (randomUUID e) of
                     None \<Rightarrow> (Inr (Text (js ''OK''), None, []), w1)
                   | Some last_insert_id \<Rightarrow>
                       (let comment_properties = comment_properties_of e event last_insert_id
                        in if MESSAGE_QUEUE_rejects e then (Inl Error, w1)
                           else
                             (let w2 = w1\<lparr>MESSAGE_QUEUE :=
                                            MESSAGE_QUEUE w1 @ [comment_properties]\<rparr>
                              in if truthy (email event) then
                                   (if EMAIL_QUEUE_rejects e then (Inl Error, w2)
                                    else
                                      (Inr (Text (js ''OK''), None, []),
                                       w2\<lparr>EMAIL_QUEUE :=
                                            EMAIL_QUEUE w2 @
                                              [email_event_of comment_properties parent_comment]\<rparr>))
                                 else (Inr (Text (js ''OK''), None, []), w2))))))"

text \<open>The GET branch up to the call of \<open>getReponse\<close>; \<open>None\<close> when the tree query has
  not returned within the fuel.\<close>

definition get_comments :: "nat \<Rightarrow> env \<Rightarrow> request \<Rightarrow> world \<Rightarrow> (error + reply) option" where
  "get_comments fuel e req w =
     (let recursive = (is_recursive req = Some (js ''true''));
          base_id = (case comment_base_id req of None \<Rightarrow> Null | Some s \<Rightarrow> Str s)
      in if comment_base_type req = Some (js ''article'') then
           (if Number_isInteger base_id then Some (Inr (Text (js ''Invalid comment ID''), Some 400, []))
            else map_option (map_sum (\<lambda>x. x) (\<lambda>comments. (Json comments, None, [])))
                   (recursiveQuery fuel (all_error e) (COMMENT_DB w)
                      (BaseArticle (comment_base_id req)) recursive))
         else if comment_base_type req = Some (js ''comment'') then
           (case Number base_id of
              Finite q \<Rightarrow>
                if of_int \<lfloor>q\<rfloor> = q then
                  map_option (map_sum (\<lambda>x. x) (\<lambda>comments. (Json comments, None, [])))
                    (recursiveQuery fuel (all_error e) (COMMENT_DB w) (BaseComment \<lfloor>q\<rfloor>) recursive)
                else Some (Inr (Text (js ''Invalid comment ID''), Some 400, []))
            | _ \<Rightarrow> Some (Inr (Text (js ''Invalid comment ID''), Some 400, [])))
         else Some (Inr (Text (js ''Invalid comment base type''), Some 400, [])))"

text \<open>The \<open>catch\<close> block of \<open>fetch\<close>.\<close>

fun catch :: "error \<Rightarrow> reply" where
  "catch (DatabaseError m) = (Text (js ''Database error''), Some 500, [])"
| "catch Error = (Text (js ''Internal server error''), Some 500, [])"

definition fetch :: "nat \<Rightarrow> env \<Rightarrow> request \<Rightarrow> world \<Rightarrow> (response \<times> world) option" where
  "fetch fuel e req w =
     (if pathname req \<noteq> Some (js ''/comment'') then
        Some (getReponse e req (Text (js ''Not found''), Some 404, []) w)
      else if http_method req = js ''OPTIONS'' then
        Some (getReponse e req (Text (js ''OK''), Some 200, corsHeaders_entries (corsHeaders w)) w)
      else if http_method req = js ''POST'' then
        (case json req of
           None \<Rightarrow> Some (getReponse e req (catch Error) w)
         | Some event \<Rightarrow>
             (case post_comment e event w of
                (Inl err, w') \<Rightarrow> Some (getReponse e req (catch err) w')
              | (Inr r, w') \<Rightarrow> Some (getReponse e req r w')))
      else if http_method req = js ''GET'' then
        (case get_comments fuel e req w of
           None \<Rightarrow> None
         | Some (Inl err) \<Rightarrow> Some (getReponse e req (catch err) w)
         | Some (Inr r) \<Rightarrow> Some (getReponse e req r w))
      else Some (getReponse e req (Text (js ''Method not allowed''), Some 405, []) w))"

section \<open>The Telegram notifier\<close>

text \<open>
  The consumer of the message queue posts one text per message to the Telegram provider.
  The provider is a parameter: given the texts posted so far and the next one, it makes
  the call throw (\<open>fetch\<close> or \<open>response.json()\<close> rejects) or answers with a JSON
  object whose \<open>ok\<close> field is truthy or not. A message has the fields of
  \<open>EmailCommentProperties\<close>, the type the notifier declares for it; its \<open>author_email\<close>
  is absent when the author gave none.
\<close>

definition TELEGRAM_MESSAGE_LENGTH_LIMIT :: int where
  "TELEGRAM_MESSAGE_LENGTH_LIMIT = 4096"

datatype decision = Ack | Retry

datatype telegram_reply = TelegramThrows | TelegramJson bool

type_synonym telegram = "jsstring list \<Rightarrow> jsstring \<Rightarrow> telegram_reply"

text \<open>The template literal of the notifier, before \<open>substring\<close>. The two literal
  pieces are the code units of the Chinese text around the author.\<close>

definition message_template :: "EmailCommentProperties \<Rightarrow> jsstring" where
  "message_template msg =
     [0x4F60, 0x6536, 0x5230, 0x4E86, 0x6765, 0x81EA, 0x20] @ em_author_name msg @ [0x20] @
     (case em_author_email msg of
        None \<Rightarrow> []
      | Some a \<Rightarrow> if a = [] then [] else [0x28] @ a @ [0x29, 0x20]) @
     [0x7684, 0x535A, 0x5BA2, 0x8BC4, 0x8BBA, 0xFF01, 0x0A, 0x0A] @ em_markdown_content msg"

definition message_text :: "EmailCommentProperties \<Rightarrow> jsstring" where
  "message_text msg = substring (message_template msg) 0 TELEGRAM_MESSAGE_LENGTH_LIMIT"

text \<open>
  The \<open>queue\<close> handler of the notifier on the messages of a batch: the exception that
  ended it (if any), the decisions taken for the messages it handled, and the texts
  posted, in order.
\<close>

fun queue_telegram ::
  "telegram \<Rightarrow> EmailCommentProperties list \<Rightarrow> jsstring list
    \<Rightarrow> error option \<times> decision list \<times> jsstring list" where
  "queue_telegram tg [] posted = (None, [], posted)"
| "queue_telegram tg (msg # messages) posted =
     (case tg posted (message_text msg) of
        TelegramThrows \<Rightarrow> (Some Error, [], posted @ [message_text msg])
      | TelegramJson ok \<Rightarrow>
          (case queue_telegram tg messages (posted @ [message_text msg]) of
             (err, decisions, posted') \<Rightarrow>
               (err, (if ok then Ack else Retry) # decisions, posted')))"

section \<open>The email worker\<close>

text \<open>
  The email provider is a parameter as well: given the calls made so far and the next
  one, it makes the call throw or answers with a JSON object. \<open>Contacts\<close> is the
  registration of an address, \<open>SmtpEmail\<close> the sending of a template to a recipient.
\<close>

datatype brevo_call =
    Contacts jsstring
  | SmtpEmail (templateId: nat) (to_email: "jsstring option") (to_name: jsstring)

datatype brevo_reply =
    BrevoThrows
  | BrevoJson (ok: bool) (has_id: bool) (code: "jsstring option") (messageId: "jsstring option")

type_synonym brevo = "brevo_call list \<Rightarrow> brevo_call \<Rightarrow> brevo_reply"

definition registerRecipientEmail ::
  "brevo \<Rightarrow> jsstring \<Rightarrow> brevo_call list \<Rightarrow> (error + bool) \<times> brevo_call list" where
  "registerRecipientEmail api a calls =
     (case api calls (Contacts a) of
        BrevoThrows \<Rightarrow> (Inl Error, calls @ [Contacts a])
      | BrevoJson response_ok id_in_data c m \<Rightarrow>
          (Inr (\<not> response_ok \<or> (id_in_data \<and> c \<noteq> Some (js ''duplicate_parameter''))),
           calls @ [Contacts a]))"

definition postSendEmailRequest ::
  "brevo \<Rightarrow> brevo_call \<Rightarrow> brevo_call list \<Rightarrow> (error + bool) \<times> brevo_call list" where
  "postSendEmailRequest api data calls =
     (case api calls data of
        BrevoThrows \<Rightarrow> (Inl Error, calls @ [data])
      | BrevoJson response_ok id_in_data c m \<Rightarrow>
          (Inr (\<not> (\<not> response_ok \<or> \<not> truthy m)), calls @ [data]))"

text \<open>\<open>sendEmail\<close>: template 2 goes to the author; template 1 goes to the parent's
  author when there is a parent with another address, and only after a first send that
  succeeded (\<open>result && ...\<close> does not evaluate its right side otherwise).\<close>

definition sendEmail ::
  "brevo \<Rightarrow> SendCommentNotificationEmailEvent \<Rightarrow> brevo_call list
    \<Rightarrow> (error + bool) \<times> brevo_call list" where
  "sendEmail api email_event calls =
     (case postSendEmailRequest api
             (SmtpEmail 2 (em_author_email (comment email_event))
                (em_author_name (comment email_event))) calls of
        (Inl err, calls1) \<Rightarrow> (Inl err, calls1)
      | (Inr result, calls1) \<Rightarrow>
          (case reply_to_comment email_event of
             None \<Rightarrow> (Inr result, calls1)
           | Some parent \<Rightarrow>
               if em_author_email (comment email_event) \<noteq> em_author_email parent then
                 (if result then
                    postSendEmailRequest api
                      (SmtpEmail 1 (em_author_email parent) (em_author_name parent)) calls1
                  else (Inr False, calls1))
               else (Inr result, calls1)))"

text \<open>The end of the \<open>try\<close> block of the email worker: acknowledge when \<open>sendEmail\<close>
  returns true, retry otherwise.\<close>

definition send_and_decide ::
  "brevo \<Rightarrow> SendCommentNotificationEmailEvent \<Rightarrow> brevo_call list
    \<Rightarrow> (error + decision) \<times> brevo_call list" where
  "send_and_decide api event calls =
     (case sendEmail api event calls of
        (Inl err, calls1) \<Rightarrow> (Inl err, calls1)
      | (Inr sent, calls1) \<Rightarrow> (Inr (if sent then Ack else Retry), calls1))"

text \<open>The body of the \<open>try\<close> block of the email worker's \<open>queue\<close> handler for one
  message: the decision it takes, or the exception it throws. The value that
  \<open>registerRecipientEmail\<close> returns is not used.\<close>

definition handle_email ::
  "brevo \<Rightarrow> SendCommentNotificationEmailEvent \<Rightarrow> brevo_call list
    \<Rightarrow> (error + decision) \<times> brevo_call list" where
  "handle_email api event calls =
     (case em_author_email (comment event) of
        None \<Rightarrow> (Inr Ack, calls)
      | Some a \<Rightarrow>
          if a = [] then (Inr Ack, calls)
          else
            (case registerRecipientEmail api a calls of
               (Inl err, calls1) \<Rightarrow> (Inl err, calls1)
             | (Inr registered, calls1) \<Rightarrow>
                 (case reply_to_comment event of
                    None \<Rightarrow> send_and_decide api event calls1
                  | Some parent \<Rightarrow>
                      (case em_author_email parent of
                         None \<Rightarrow> (Inr Ack, calls1)
                       | Some pa \<Rightarrow>
                           if pa = [] then (Inr Ack, calls1)
                           else
                             (case registerRecipientEmail api pa calls1 of
                                (Inl err, calls2) \<Rightarrow> (Inl err, calls2)
                              | (Inr registered', calls2) \<Rightarrow>
                                  send_and_decide api event calls2)))))"

text \<open>The \<open>queue\<close> handler of the email worker: every exception of a message is
  caught and turned into a retry of that message.\<close>

fun queue_email ::
  "brevo \<Rightarrow> SendCommentNotificationEmailEvent list \<Rightarrow> brevo_call list
    \<Rightarrow> decision list \<times> brevo_call list" where
  "queue_email api [] calls = ([], calls)"
| "queue_email api (event # messages) calls =
     (case handle_email api event calls of
        (r, calls1) \<Rightarrow>
          (case queue_email api messages calls1 of
             (decisions, calls2) \<Rightarrow>
               ((case r of Inl err \<Rightarrow> Retry | Inr d \<Rightarrow> d) # decisions, calls2)))"

section \<open>Notions of the properties\<close>

text \<open>
  A table in which every row was inserted after its parent: the parent id of a row is
  below its own id (0 for a top-level comment, ids starting at 1).
\<close>

definition parents_first :: "comments_row list \<Rightarrow> bool" where
  "parents_first rows = (\<forall>r \<in> set rows. r_parent_id r < r_id r)"

text \<open>The tables the HTTP worker can have stored: the empty table, and what a request
  leaves of a stored table, whatever the rest of the world is.\<close>

inductive stored :: "comments_row list \<Rightarrow> bool" where
  empty: "stored []"
| request: "stored (COMMENT_DB w) \<Longrightarrow> fetch fuel e req w = Some (resp, w') \<Longrightarrow>
            stored (COMMENT_DB w')"

text \<open>A node of a tree and all nodes below it.\<close>

fun subcomments :: "Comment \<Rightarrow> Comment list" where
  "subcomments (Comment i a e w c t cs) = Comment i a e w c t cs # concat (map subcomments cs)"

text \<open>The nodes of a list are built from the rows of a list, one for one and in order,
  whatever their children.\<close>

definition built_from :: "Comment list \<Rightarrow> comments_row list \<Rightarrow> bool" where
  "built_from cs rows = list_all2 (\<lambda>c r. c = comment_of r (children c)) cs rows"

text \<open>A node carries the fields of a row, whatever its children.\<close>

definition node_of :: "Comment \<Rightarrow> comments_row \<Rightarrow> bool" where
  "node_of c r \<longleftrightarrow>
     c_id c = r_id r \<and> c_author c = r_author_name r \<and> c_email c = r_author_email r \<and>
     c_website c = r_author_website r \<and> c_content c = r_html_content r \<and>
     c_comment_timestamp_ms c = r_comment_timestamp_ms r"

text \<open>A table whose levels are integers from 0 up, each below the number of rows.\<close>

definition small_levels :: "comments_row list \<Rightarrow> bool" where
  "small_levels rows =
     (\<forall>r \<in> set rows. \<exists>l. r_level r = Finite (of_int l) \<and> 0 \<le> l \<and> l < int (length rows))"

text \<open>The number of rows with an id above the base bounds the depth of the calls.\<close>

fun above :: "comments_row list \<Rightarrow> base \<Rightarrow> nat" where
  "above db (BaseArticle a) = length (filter (\<lambda>r. 0 < r_id r) db)"
| "above db (BaseComment n) = length (filter (\<lambda>r. n < r_id r) db)"

text \<open>What a recursive query has to return for given rows: nodes built from these rows,
  such that every node of the trees has children built from the rows whose parent it
  is.\<close>

definition full_depth :: "comments_row list \<Rightarrow> (error + Comment list) option \<Rightarrow> comments_row list \<Rightarrow> bool" where
  "full_depth db res rows =
     (\<exists>cs. res = Some (Inr cs) \<and> built_from cs rows \<and>
           (\<forall>c \<in> set (concat (map subcomments cs)).
              built_from (children c) (query_all db (BaseComment (c_id c)))))"

section \<open>Concrete inputs\<close>

text \<open>Inputs at which the properties below are evaluated; \<open>outcome\<close> reads off an
  answer and the world it leaves the status, the ids stored, the comment ids of the IM jobs
  and the number of email jobs.\<close>

definition brevo_unauthorized :: brevo where
  "brevo_unauthorized calls call =
     (case call of
        Contacts a \<Rightarrow> BrevoJson False False (Some (js ''unauthorized'')) None
      | SmtpEmail t a n \<Rightarrow> BrevoJson True False None (Some (js ''<202411031200.1@smtp-relay.mailin.fr>'')))"

definition event_alice :: SendCommentNotificationEmailEvent where
  "event_alice =
     \<lparr>comment =
        \<lparr>em_comment_id = 2, em_comment_timestamp = 1730635200000,
         em_author_name = js ''Alice'', em_author_email = Some (js ''alice@example.org''),
         em_markdown_content = js ''Thanks!''\<rparr>,
      reply_to_comment = None\<rparr>"

definition event_self_reply :: SendCommentNotificationEmailEvent where
  "event_self_reply =
     \<lparr>comment =
        \<lparr>em_comment_id = 2, em_comment_timestamp = 1730635200000,
         em_author_name = js ''Alice'', em_author_email = Some (js ''alice@example.org''),
         em_markdown_content = js ''Thanks!''\<rparr>,
      reply_to_comment =
        Some \<lparr>em_comment_id = 1, em_comment_timestamp = 1730600000000,
              em_author_name = js ''Alice A.'', em_author_email = Some (js ''alice@example.org''),
              em_markdown_content = js ''First''\<rparr>\<rparr>"

definition brevo_accepts :: brevo where
  "brevo_accepts calls call =
     (case call of
        Contacts a \<Rightarrow> BrevoJson True True None None
      | SmtpEmail t a n \<Rightarrow> BrevoJson True False None (Some (js ''<202411031200.1@smtp-relay.mailin.fr>'')))"

definition long_message :: EmailCommentProperties where
  "long_message =
     \<lparr>em_comment_id = 3, em_comment_timestamp = 1730635200000,
      em_author_name = js ''Bob'', em_author_email = Some (js ''bob@example.org''),
      em_markdown_content = replicate 5000 0x61\<rparr>"

definition short_message :: EmailCommentProperties where
  "short_message =
     \<lparr>em_comment_id = 4, em_comment_timestamp = 1730635200000,
      em_author_name = js ''Eve'', em_author_email = None,
      em_markdown_content = js ''Hi''\<rparr>"

definition telegram_ok :: telegram where
  "telegram_ok posted text = TelegramJson True"

definition env_example :: env where
  "env_example =
     \<lparr>ALLOWED_ORIGINS = js ''https://sqybi.com; http://localhost:3000'',
      regexp_test = (\<lambda>pattern subject. False),
      markdownToHtml = (\<lambda>markdown. js ''<p>'' @ markdown @ js ''</p>''),
      randomUUID = js ''3b241101-e2bb-4255-8caf-4136c566a962'',
      getTime = 1730635200000,
      insert_error = None,
      all_error = (\<lambda>b. None),
      MESSAGE_QUEUE_rejects = False,
      EMAIL_QUEUE_rejects = False\<rparr>"

definition allowed_example :: "jsstring list" where
  "allowed_example = [js ''https://sqybi.com'', js ''http://localhost:3000'']"

definition response_ok :: response where
  "response_ok = Response (Text (js ''OK'')) None []"

definition world_empty :: world where
  "world_empty = \<lparr>COMMENT_DB = [], MESSAGE_QUEUE = [], EMAIL_QUEUE = [], corsHeaders = corsHeaders_init\<rparr>"

definition event_orphan_reply :: PostCommentEvent where
  "event_orphan_reply =
     \<lparr>article_id = js ''hello-world'', article_original_url = js ''https://sqybi.com/blog/hello-world'',
      parent_comment_id = Some 7, author = js ''Alice'', email = Some (js ''alice@example.org''),
      website = None, content = js ''Thanks!'', timestamp_ms = None\<rparr>"

definition event_top_level :: PostCommentEvent where
  "event_top_level =
     \<lparr>article_id = js ''hello-world'', article_original_url = js ''https://sqybi.com/blog/hello-world'',
      parent_comment_id = None, author = js ''Alice'', email = Some (js ''alice@example.org''),
      website = None, content = js ''Thanks!'', timestamp_ms = None\<rparr>"

definition request_post :: "jsstring option \<Rightarrow> PostCommentEvent \<Rightarrow> request" where
  "request_post origin event =
     \<lparr>pathname = Some (js ''/comment''), http_method = js ''POST'', Origin = origin,
      json = Some event, comment_base_type = None, comment_base_id = None, is_recursive = None\<rparr>"

definition row_first :: comments_row where
  "row_first =
     \<lparr>r_id = 1, r_article_id = js ''hello-world'', r_parent_id = 0, r_level = Finite 0,
      r_author_name = js ''Bob'', r_author_email = js ''bob@example.org'',
      r_author_website = js '''', r_markdown_content = js ''First'',
      r_html_content = js ''<p>First</p>'', r_comment_timestamp_ms = 1730600000000,
      r_uuid = js ''0d9b2c4e-5f0a-4a7e-9c39-2b1f6f2a7d11''\<rparr>"

definition world_one :: world where
  "world_one =
     \<lparr>COMMENT_DB = [row_first], MESSAGE_QUEUE = [], EMAIL_QUEUE = [], corsHeaders = corsHeaders_init\<rparr>"



definition event_reply :: PostCommentEvent where
  "event_reply =
     \<lparr>article_id = js ''hello-world'', article_original_url = js ''https://sqybi.com/blog/hello-world'',
      parent_comment_id = Some 1, author = js ''Alice'', email = None,
      website = None, content = js ''Thanks!'', timestamp_ms = None\<rparr>"

definition outcome :: "(response \<times> world) option \<Rightarrow> (nat \<times> int list \<times> int list \<times> nat) option" where
  "outcome r =
     map_option (\<lambda>(resp, w). (status resp, map r_id (COMMENT_DB w),
                              map tg_comment_id (MESSAGE_QUEUE w), length (EMAIL_QUEUE w))) r"


definition env_email_queue_rejects :: env where
  "env_email_queue_rejects = env_example\<lparr>EMAIL_QUEUE_rejects := True\<rparr>"

definition request_get :: "jsstring option \<Rightarrow> jsstring \<Rightarrow> jsstring \<Rightarrow> jsstring \<Rightarrow> request" where
  "request_get origin base_type base_id recursive =
     \<lparr>pathname = Some (js ''/comment''), http_method = js ''GET'', Origin = origin,
      json = None, comment_base_type = Some base_type, comment_base_id = Some base_id,
      is_recursive = Some recursive\<rparr>"

definition row_second :: comments_row where
  "row_second =
     \<lparr>r_id = 2, r_article_id = js ''hello-world'', r_parent_id = 1, r_level = Finite 1,
      r_author_name = js ''Alice'', r_author_email = js '''',
      r_author_website = js '''', r_markdown_content = js ''Thanks!'',
      r_html_content = js ''<p>Thanks!</p>'', r_comment_timestamp_ms = 1730635200000,
      r_uuid = js ''3b241101-e2bb-4255-8caf-4136c566a962''\<rparr>"

definition row_third :: comments_row where
  "row_third =
     \<lparr>r_id = 3, r_article_id = js ''hello-world'', r_parent_id = 2, r_level = Finite 2,
      r_author_name = js ''Bob'', r_author_email = js ''bob@example.org'',
      r_author_website = js '''', r_markdown_content = js ''Welcome'',
      r_html_content = js ''<p>Welcome</p>'', r_comment_timestamp_ms = 1730640000000,
      r_uuid = js ''a3c1f7de-58a1-4f0e-8d57-0c2f4c1f9e55''\<rparr>"

section \<open>Properties\<close>

subsection \<open>Strings\<close>

lemma of_char_word_inj: "(of_char c :: 16 word) = of_char d \<longleftrightarrow> c = d"
proof
  assume a: "(of_char c :: 16 word) = of_char d"
  have lt: "(of_char c :: nat) < 2 ^ 16" for c
  proof -
    have "(of_char c :: nat) < 256" by simp
    also have "(256::nat) < 2 ^ 16" by simp
    finally show ?thesis .
  qed
  from a have "(word_of_nat (of_char c) :: 16 word) = word_of_nat (of_char d)"
    by (simp only: of_nat_of_char)
  then have "take_bit 16 (of_char c :: nat) = take_bit 16 (of_char d :: nat)"
    by (simp add: word_of_nat_eq_iff)
  then have "(of_char c :: nat) = of_char d"
    using lt [of c] lt [of d] by (simp add: take_bit_nat_eq_self)
  then show "c = d" by simp
qed simp

lemma js_inj [simp]: "js a = js b \<longleftrightarrow> a = b"
  unfolding js_def by (rule inj_map_eq_map) (simp add: inj_def of_char_word_inj)

lemma js_Nil [simp]: "js s = [] \<longleftrightarrow> s = []" "[] = js s \<longleftrightarrow> s = []"
  by (auto simp: js_def)

lemma js_empty [simp]: "js [] = []"
  by (simp add: js_def)

lemma length_js [simp]: "length (js s) = length s"
  by (simp add: js_def)

lemma take_js [simp]: "take n (js s) = js (take n s)"
  by (simp add: js_def take_map)

lemma drop_js [simp]: "drop n (js s) = js (drop n s)"
  by (simp add: js_def drop_map)

subsection \<open>Numbers\<close>

text \<open>Rounding to the nearest double is exact on the integers up to \<open>2 ^ 53\<close> in absolute
  value.\<close>

lemma round_half_even_of_int: "round_half_even (of_int x) = x"
  by (simp add: round_half_even_def Let_def)

lemma pow2_pos: "0 < pow2 e"
  by (simp add: pow2_def)

lemma double_exponent_nat:
  assumes "0 < m" and "m \<le> 2 ^ 53"
  shows "double_exponent (of_int m) = int (floorlog 2 (nat m)) - 53"
    and "1 \<le> floorlog 2 (nat m)" and "floorlog 2 (nat m) \<le> 54"
    and "2 ^ (floorlog 2 (nat m) - 1) \<le> nat m"
proof -
  let ?f = "floorlog 2 (nat m)"
  have pos: "0 < nat m" using assms(1) by simp
  have b: "2 ^ (?f - 1) \<le> nat m" "nat m < 2 ^ ?f"
    using floorlog_bounds [of "nat m" 2] pos by simp_all
  show "2 ^ (?f - 1) \<le> nat m" by (rule b(1))
  show f1: "1 \<le> ?f" using pos floorlog_eq_zero_iff [of 2 "nat m"] by (cases ?f) auto
  have "nat m < 2 ^ 54"
  proof -
    have "nat m \<le> 2 ^ 53" using assms by (simp add: nat_le_iff)
    also have "\<dots> < (2::nat) ^ 54" by simp
    finally show ?thesis .
  qed
  then show f54: "?f \<le> 54" by (intro floorlog_leI) simp_all
  have one: "floorlog 2 (Suc 0) = 1" by (simp add: floorlog_def)
  have k: "int ?f - 1 = int (?f - 1)" using f1 by simp
  have "pow2 (int ?f - 1) = 2 ^ (?f - 1)" unfolding k by (simp add: pow2_def)
  also have "\<dots> = rat_of_nat (2 ^ (?f - 1))" by simp
  also have "\<dots> \<le> rat_of_nat (nat m)" using b(1) by (simp only: of_nat_le_iff)
  also have "\<dots> = rat_of_int m" using assms(1) by simp
  finally have le: "pow2 (int ?f - 1) \<le> rat_of_int m" .
  show "double_exponent (of_int m) = int ?f - 53"
    using le f1 by (simp add: double_exponent_def one Let_def)
qed

lemma round_double_nat:
  assumes "0 < m" and "m \<le> 2 ^ 53"
  shows "of_int (round_half_even (rat_of_int m / pow2 (double_exponent (of_int m)))) *
           pow2 (double_exponent (of_int m)) = rat_of_int m"
proof -
  let ?f = "floorlog 2 (nat m)"
  note d = double_exponent_nat [OF assms]
  have "\<exists>x. rat_of_int m = rat_of_int x * pow2 (int ?f - 53)"
  proof (cases "?f = 54")
    case True
    then have "2 ^ 53 \<le> nat m" using d(4) by simp
    then have "m = 2 ^ 53" using assms by (simp add: le_nat_iff)
    then have "rat_of_int m = rat_of_int (2 ^ 52) * pow2 (int ?f - 53)"
      using True by (simp add: pow2_def)
    then show ?thesis by blast
  next
    case False
    then have le: "?f \<le> 53" using d(3) by simp
    have "pow2 (int ?f - 53) * 2 ^ (53 - ?f) = 1"
    proof (cases "?f = 53")
      case True
      then show ?thesis by (simp add: pow2_def)
    next
      case False
      with le have "int ?f - 53 < 0" "nat (- (int ?f - 53)) = 53 - ?f" by simp_all
      then show ?thesis by (simp add: pow2_def)
    qed
    then have "rat_of_int m = rat_of_int (m * 2 ^ (53 - ?f)) * pow2 (int ?f - 53)"
      by (simp add: mult.assoc mult.commute [of "2 ^ (53 - ?f)"])
    then show ?thesis by blast
  qed
  then obtain x where x: "rat_of_int m = rat_of_int x * pow2 (int ?f - 53)" by blast
  have "rat_of_int m / pow2 (int ?f - 53) = rat_of_int x"
    using x pow2_pos [of "int ?f - 53"] by simp
  then show ?thesis
    unfolding d(1) using x by (simp add: round_half_even_of_int)
qed

lemma round_double_int:
  assumes "\<bar>n\<bar> \<le> 2 ^ 53"
  shows "round_double (of_int n) = Finite (of_int n)"
proof (cases "n = 0")
  case True
  then show ?thesis by (simp add: round_double_def)
next
  case False
  let ?m = "\<bar>n\<bar>"
  have m: "0 < ?m" "?m \<le> 2 ^ 53" using False assms by simp_all
  have abs: "\<bar>rat_of_int n\<bar> = rat_of_int ?m" by simp
  have v: "of_int (round_half_even (rat_of_int ?m / pow2 (double_exponent (of_int ?m)))) *
      pow2 (double_exponent (of_int ?m)) = rat_of_int ?m"
    using m by (rule round_double_nat)
  have "rat_of_int ?m \<le> 2 ^ 53" using m(2) by (metis of_int_le_iff of_int_numeral of_int_power)
  also have "\<dots> < (2::rat) ^ 1024" by simp
  finally have small: "\<not> pow2 1024 \<le> rat_of_int ?m" by (simp add: pow2_def)
  show ?thesis
    using False small v
    by (simp only: round_double_def Let_def abs) (auto simp: abs_if split: if_splits)
qed

subsection \<open>The Telegram notifier\<close>

lemma substring_from_0: "0 \<le> n \<Longrightarrow> substring s 0 n = take (nat n) s"
  by (auto simp: substring_def Let_def min_def max_def)

lemma message_text_take: "message_text msg = take 4096 (message_template msg)"
  by (simp add: message_text_def TELEGRAM_MESSAGE_LENGTH_LIMIT_def substring_from_0)

lemma queue_telegram_posted:
  "\<exists>n. snd (snd (queue_telegram tg messages posted)) = posted @ map message_text (take n messages)"
proof (induction messages arbitrary: posted)
  case Nil
  then show ?case by simp
next
  case (Cons msg messages)
  show ?case
  proof (cases "tg posted (message_text msg)")
    case TelegramThrows
    then have "snd (snd (queue_telegram tg (msg # messages) posted)) =
        posted @ map message_text (take 1 (msg # messages))" by simp
    then show ?thesis by blast
  next
    case (TelegramJson ok)
    from Cons.IH [of "posted @ [message_text msg]"] obtain n where
      n: "snd (snd (queue_telegram tg messages (posted @ [message_text msg]))) =
            (posted @ [message_text msg]) @ map message_text (take n messages)" by blast
    have "snd (snd (queue_telegram tg (msg # messages) posted)) =
        posted @ map message_text (take (Suc n) (msg # messages))"
      using TelegramJson n by (auto split: prod.splits)
    then show ?thesis by blast
  qed
qed

text \<open>
  Claim C8. Whatever the length of the markdown content, the text the notifier posts for
  a message has at most 4096 code units. It is the first 4096 code units of: the fixed
  opening, the author's name, a space, the author's email in parentheses followed by a
  space when the author gave one (nothing when the email is absent or empty), the fixed
  closing with two line feeds, and the markdown body. Every text the \<open>queue\<close> handler
  posts for a batch is the text of one of its messages.
\<close>

theorem telegram_text_limit:
  "length (message_text msg) \<le> 4096 \<and>
   (em_author_email msg = Some a \<and> a \<noteq> [] \<longrightarrow>
      message_text msg =
        take 4096
          ([0x4F60, 0x6536, 0x5230, 0x4E86, 0x6765, 0x81EA, 0x20] @ em_author_name msg @
           [0x20, 0x28] @ a @ [0x29, 0x20] @
           [0x7684, 0x535A, 0x5BA2, 0x8BC4, 0x8BBA, 0xFF01, 0x0A, 0x0A] @
           em_markdown_content msg)) \<and>
   (em_author_email msg = None \<or> em_author_email msg = Some [] \<longrightarrow>
      message_text msg =
        take 4096
          ([0x4F60, 0x6536, 0x5230, 0x4E86, 0x6765, 0x81EA, 0x20] @ em_author_name msg @
           [0x20] @
           [0x7684, 0x535A, 0x5BA2, 0x8BC4, 0x8BBA, 0xFF01, 0x0A, 0x0A] @
           em_markdown_content msg)) \<and>
   (\<forall>t \<in> set (snd (snd (queue_telegram tg messages []))).
      length t \<le> 4096 \<and> (\<exists>m \<in> set messages. t = message_text m))"
proof (intro conjI)
  show "length (message_text msg) \<le> 4096"
    by (simp add: message_text_take)
  show "em_author_email msg = Some a \<and> a \<noteq> [] \<longrightarrow>
      message_text msg =
        take 4096
          ([0x4F60, 0x6536, 0x5230, 0x4E86, 0x6765, 0x81EA, 0x20] @ em_author_name msg @
           [0x20, 0x28] @ a @ [0x29, 0x20] @
           [0x7684, 0x535A, 0x5BA2, 0x8BC4, 0x8BBA, 0xFF01, 0x0A, 0x0A] @
           em_markdown_content msg)"
    by (simp add: message_text_take message_template_def)
  show "em_author_email msg = None \<or> em_author_email msg = Some [] \<longrightarrow>
      message_text msg =
        take 4096
          ([0x4F60, 0x6536, 0x5230, 0x4E86, 0x6765, 0x81EA, 0x20] @ em_author_name msg @
           [0x20] @
           [0x7684, 0x535A, 0x5BA2, 0x8BC4, 0x8BBA, 0xFF01, 0x0A, 0x0A] @
           em_markdown_content msg)"
    by (auto simp: message_text_take message_template_def)
  obtain n where n: "snd (snd (queue_telegram tg messages [])) = map message_text (take n messages)"
    using queue_telegram_posted [of tg messages "[]"] by auto
  have "\<forall>t \<in> set (map message_text (take n messages)).
      length t \<le> 4096 \<and> (\<exists>m \<in> set messages. t = message_text m)"
    by (auto simp: message_text_take dest: in_set_takeD)
  with n show "\<forall>t \<in> set (snd (snd (queue_telegram tg messages []))).
      length t \<le> 4096 \<and> (\<exists>m \<in> set messages. t = message_text m)"
    by simp
qed

lemma long_message_template_length: "length (message_template long_message) = 5037"
  by (simp add: message_template_def long_message_def)

theorem telegram_text_limit_witness:
  "em_author_email long_message = Some (js ''bob@example.org'') \<and>
   length (message_template long_message) = 5037 \<and>
   length (message_text long_message) = 4096 \<and>
   message_text long_message =
     [0x4F60, 0x6536, 0x5230, 0x4E86, 0x6765, 0x81EA, 0x20] @ js ''Bob'' @ [0x20, 0x28] @
     js ''bob@example.org'' @ [0x29, 0x20] @
     [0x7684, 0x535A, 0x5BA2, 0x8BC4, 0x8BBA, 0xFF01, 0x0A, 0x0A] @ replicate 4059 0x61 \<and>
   em_author_email short_message = None \<and>
   message_text short_message =
     [0x4F60, 0x6536, 0x5230, 0x4E86, 0x6765, 0x81EA, 0x20] @ js ''Eve'' @ [0x20] @
     [0x7684, 0x535A, 0x5BA2, 0x8BC4, 0x8BBA, 0xFF01, 0x0A, 0x0A] @ js ''Hi'' \<and>
   snd (snd (queue_telegram telegram_ok [long_message, short_message] [])) =
     [message_text long_message, message_text short_message]"
proof -
  have l: "message_text long_message =
     [0x4F60, 0x6536, 0x5230, 0x4E86, 0x6765, 0x81EA, 0x20] @ js ''Bob'' @ [0x20, 0x28] @
     js ''bob@example.org'' @ [0x29, 0x20] @
     [0x7684, 0x535A, 0x5BA2, 0x8BC4, 0x8BBA, 0xFF01, 0x0A, 0x0A] @ replicate 4059 0x61"
    using telegram_text_limit [of long_message "js ''bob@example.org''" telegram_ok "[]"]
    by (simp add: long_message_def)
  have s: "message_text short_message =
     [0x4F60, 0x6536, 0x5230, 0x4E86, 0x6765, 0x81EA, 0x20] @ js ''Eve'' @ [0x20] @
     [0x7684, 0x535A, 0x5BA2, 0x8BC4, 0x8BBA, 0xFF01, 0x0A, 0x0A] @ js ''Hi''"
    using telegram_text_limit [of short_message "[]" telegram_ok "[]"]
    by (simp add: short_message_def)
  have q: "snd (snd (queue_telegram telegram_ok [long_message, short_message] [])) =
     [message_text long_message, message_text short_message]"
    by (simp add: telegram_ok_def)
  have n: "length (message_text long_message) = 4096" unfolding l by simp
  have e: "em_author_email long_message = Some (js ''bob@example.org'')"
    by (simp add: long_message_def)
  have f: "em_author_email short_message = None"
    by (simp add: short_message_def)
  show ?thesis
    by (intro conjI e long_message_template_length n l f s q)
qed

subsection \<open>The email worker\<close>

lemma postSendEmailRequest_calls:
  "snd (postSendEmailRequest api data calls) = calls @ [data]"
  by (simp add: postSendEmailRequest_def split: brevo_reply.splits)

lemma registerRecipientEmail_calls:
  "snd (registerRecipientEmail api a calls) = calls @ [Contacts a]"
  by (simp add: registerRecipientEmail_def split: brevo_reply.splits)

text \<open>The email worker registers before it sends: the calls of one message are the
  registration of the author's address, then that of the parent's author when there is
  a parent, then the sends. A registration that throws ends the message with a retry and
  without a send.\<close>

lemma sendEmail_calls:
  "\<exists>sends. snd (sendEmail api ev calls) = calls @ sends \<and>
           (\<forall>c \<in> set sends. \<forall>a. c \<noteq> Contacts a)"
proof -
  let ?m2 = "SmtpEmail 2 (em_author_email (comment ev)) (em_author_name (comment ev))"
  obtain r1 where r1: "postSendEmailRequest api ?m2 calls = (r1, calls @ [?m2])"
    using postSendEmailRequest_calls [of api ?m2 calls]
    by (cases "postSendEmailRequest api ?m2 calls") auto
  show ?thesis
  proof (cases "reply_to_comment ev")
    case None
    then have "snd (sendEmail api ev calls) = calls @ [?m2]"
      using r1 by (cases r1) (simp_all add: sendEmail_def)
    then show ?thesis by simp
  next
    case (Some parent)
    let ?m1 = "SmtpEmail 1 (em_author_email parent) (em_author_name parent)"
    have "snd (sendEmail api ev calls) = calls @ [?m2] \<or>
          snd (sendEmail api ev calls) = calls @ [?m2, ?m1]"
      using r1 Some postSendEmailRequest_calls [of api ?m1 "calls @ [?m2]"]
      by (cases r1) (auto simp: sendEmail_def)
    then show ?thesis by auto
  qed
qed

lemma registration_throw_retries:
  assumes "em_author_email (comment ev) = Some a" and "a \<noteq> []"
    and "api calls (Contacts a) = BrevoThrows"
  shows "handle_email api ev calls = (Inl Error, calls @ [Contacts a])"
    and "queue_email api [ev] calls = ([Retry], calls @ [Contacts a])"
  using assms by (simp_all add: handle_email_def registerRecipientEmail_def)

lemma registers_before_sending:
  assumes "em_author_email (comment ev) = Some a" and "a \<noteq> []"
  shows "\<exists>regs sends. snd (handle_email api ev calls) = calls @ regs @ sends \<and>
           (\<forall>c \<in> set sends. \<forall>a'. c \<noteq> Contacts a') \<and>
           (regs = [Contacts a] \<or>
            (\<exists>parent pa. reply_to_comment ev = Some parent \<and> em_author_email parent = Some pa \<and>
               pa \<noteq> [] \<and> regs = [Contacts a, Contacts pa])) \<and>
           (sends \<noteq> [] \<longrightarrow>
              (case reply_to_comment ev of
                 None \<Rightarrow> regs = [Contacts a]
               | Some parent \<Rightarrow>
                   \<exists>pa. em_author_email parent = Some pa \<and> regs = [Contacts a, Contacts pa]))"
proof -
  have sd: "\<exists>sends. snd (send_and_decide api ev cs) = cs @ sends \<and>
      (\<forall>c \<in> set sends. \<forall>a'. c \<noteq> Contacts a')" for cs
    using sendEmail_calls [of api ev cs]
    by (auto simp: send_and_decide_def split: prod.splits sum.splits)
  obtain r1 where r1: "registerRecipientEmail api a calls = (r1, calls @ [Contacts a])"
    using registerRecipientEmail_calls [of api a calls]
    by (cases "registerRecipientEmail api a calls") auto
  show ?thesis
  proof (cases r1)
    case (Inl err)
    then have "snd (handle_email api ev calls) = calls @ [Contacts a] @ []"
      using assms r1 by (simp add: handle_email_def)
    then show ?thesis by (intro exI [of _ "[Contacts a]"] exI [of _ "[]"]) simp
  next
    case (Inr registered)
    show ?thesis
    proof (cases "reply_to_comment ev")
      case None
      from sd [of "calls @ [Contacts a]"] obtain sends where
        "snd (send_and_decide api ev (calls @ [Contacts a])) = (calls @ [Contacts a]) @ sends"
        "\<forall>c \<in> set sends. \<forall>a'. c \<noteq> Contacts a'" by blast
      then have "snd (handle_email api ev calls) = calls @ [Contacts a] @ sends \<and>
          (\<forall>c \<in> set sends. \<forall>a'. c \<noteq> Contacts a')"
        using assms r1 Inr None by (simp add: handle_email_def)
      then show ?thesis using None
        by (intro exI [of _ "[Contacts a]"] exI [of _ sends]) simp
    next
      case (Some parent)
      show ?thesis
      proof (cases "truthy (em_author_email parent)")
        case False
        then have "snd (handle_email api ev calls) = calls @ [Contacts a] @ []"
          using assms r1 Inr Some by (cases "em_author_email parent") (simp_all add: handle_email_def)
        then show ?thesis by (intro exI [of _ "[Contacts a]"] exI [of _ "[]"]) simp
      next
        case True
        then obtain pa where pa: "em_author_email parent = Some pa" "pa \<noteq> []"
          by (cases "em_author_email parent") auto
        obtain r2 where r2: "registerRecipientEmail api pa (calls @ [Contacts a]) =
            (r2, calls @ [Contacts a, Contacts pa])"
          using registerRecipientEmail_calls [of api pa "calls @ [Contacts a]"]
          by (cases "registerRecipientEmail api pa (calls @ [Contacts a])") auto
        show ?thesis
        proof (cases r2)
          case (Inl err)
          then have "snd (handle_email api ev calls) = calls @ [Contacts a, Contacts pa] @ []"
            using assms r1 Inr Some pa r2 by (simp add: handle_email_def)
          then show ?thesis using Some pa
            by (intro exI [of _ "[Contacts a, Contacts pa]"] exI [of _ "[]"]) simp
        next
          case (Inr registered')
          from sd [of "calls @ [Contacts a, Contacts pa]"] obtain sends where
            "snd (send_and_decide api ev (calls @ [Contacts a, Contacts pa])) =
               (calls @ [Contacts a, Contacts pa]) @ sends"
            "\<forall>c \<in> set sends. \<forall>a'. c \<noteq> Contacts a'" by blast
          then have "snd (handle_email api ev calls) = calls @ [Contacts a, Contacts pa] @ sends \<and>
              (\<forall>c \<in> set sends. \<forall>a'. c \<noteq> Contacts a')"
            using assms r1 \<open>r1 = Inr registered\<close> Some pa r2 Inr by (simp add: handle_email_def)
          then show ?thesis using Some pa
            by (intro exI [of _ "[Contacts a, Contacts pa]"] exI [of _ sends]) simp
        qed
      qed
    qed
  qed
qed

lemma sendEmail_same_address:
  assumes "reply_to_comment ev = Some parent"
    and "em_author_email (comment ev) = em_author_email parent"
  shows "snd (sendEmail api ev calls) =
           calls @ [SmtpEmail 2 (em_author_email (comment ev)) (em_author_name (comment ev))]"
  using assms postSendEmailRequest_calls [of api
      "SmtpEmail 2 (em_author_email (comment ev)) (em_author_name (comment ev))" calls]
  by (auto simp: sendEmail_def split: prod.splits sum.splits)

text \<open>
  Claim C7. When the event carries a parent whose author's address equals the new
  author's address, \<open>sendEmail\<close> makes exactly one send request, template 2 (the
  comment-posted variant) to the author; and the worker's handling of such a message
  makes, besides registrations, no send request or that one.
\<close>

theorem same_address_one_email:
  assumes "reply_to_comment ev = Some parent"
    and "em_author_email (comment ev) = em_author_email parent"
  shows "snd (sendEmail api ev calls) =
           calls @ [SmtpEmail 2 (em_author_email (comment ev)) (em_author_name (comment ev))] \<and>
         (\<exists>cs. snd (handle_email api ev calls) = calls @ cs \<and>
               (filter (\<lambda>c. \<forall>a. c \<noteq> Contacts a) cs = [] \<or>
                filter (\<lambda>c. \<forall>a. c \<noteq> Contacts a) cs =
                  [SmtpEmail 2 (em_author_email (comment ev)) (em_author_name (comment ev))]))"
proof
  show "snd (sendEmail api ev calls) =
      calls @ [SmtpEmail 2 (em_author_email (comment ev)) (em_author_name (comment ev))]"
    using assms by (rule sendEmail_same_address)
next
  let ?mail = "SmtpEmail 2 (em_author_email (comment ev)) (em_author_name (comment ev))"
  have send: "snd (send_and_decide api ev cs) = cs @ [?mail]" for cs
    using sendEmail_same_address [OF assms, of api cs]
    by (auto simp: send_and_decide_def split: prod.splits sum.splits)
  show "\<exists>cs. snd (handle_email api ev calls) = calls @ cs \<and>
      (filter (\<lambda>c. \<forall>a. c \<noteq> Contacts a) cs = [] \<or> filter (\<lambda>c. \<forall>a. c \<noteq> Contacts a) cs = [?mail])"
  proof (cases "em_author_email (comment ev)")
    case None
    then show ?thesis by (simp add: handle_email_def)
  next
    case (Some a)
    show ?thesis
    proof (cases "a = []")
      case True
      with Some show ?thesis by (simp add: handle_email_def)
    next
      case False
      have pa: "em_author_email parent = Some a" using assms Some by simp
      obtain r1 where r1: "registerRecipientEmail api a calls = (r1, calls @ [Contacts a])"
        using registerRecipientEmail_calls [of api a calls] by (cases "registerRecipientEmail api a calls") auto
      obtain r2 where r2: "registerRecipientEmail api a (calls @ [Contacts a]) =
          (r2, calls @ [Contacts a, Contacts a])"
        using registerRecipientEmail_calls [of api a "calls @ [Contacts a]"]
        by (cases "registerRecipientEmail api a (calls @ [Contacts a])") auto
      have "snd (handle_email api ev calls) = calls @ [Contacts a] \<or>
            snd (handle_email api ev calls) = calls @ [Contacts a, Contacts a] \<or>
            snd (handle_email api ev calls) = calls @ [Contacts a, Contacts a, ?mail]"
        using Some False assms pa r1 r2 send [of "calls @ [Contacts a, Contacts a]"]
        by (cases r1; cases r2) (auto simp: handle_email_def)
      then show ?thesis by (elim disjE) (rule exI [where x = "[Contacts a]"], simp,
          rule exI [where x = "[Contacts a, Contacts a]"], simp,
          rule exI [where x = "[Contacts a, Contacts a, ?mail]"], simp)
    qed
  qed
qed

theorem same_address_one_email_witness:
  "reply_to_comment event_self_reply =
     Some \<lparr>em_comment_id = 1, em_comment_timestamp = 1730600000000,
           em_author_name = js ''Alice A.'', em_author_email = Some (js ''alice@example.org''),
           em_markdown_content = js ''First''\<rparr> \<and>
   snd (sendEmail brevo_accepts event_self_reply []) =
     [SmtpEmail 2 (Some (js ''alice@example.org'')) (js ''Alice'')] \<and>
   handle_email brevo_accepts event_self_reply [] =
     (Inr Ack, [Contacts (js ''alice@example.org''), Contacts (js ''alice@example.org''),
                SmtpEmail 2 (Some (js ''alice@example.org'')) (js ''Alice'')])"
  using same_address_one_email [of event_self_reply
      "\<lparr>em_comment_id = 1, em_comment_timestamp = 1730600000000,
        em_author_name = js ''Alice A.'', em_author_email = Some (js ''alice@example.org''),
        em_markdown_content = js ''First''\<rparr>" brevo_accepts "[]"]
  by (simp add: event_self_reply_def handle_email_def registerRecipientEmail_def
      send_and_decide_def sendEmail_def postSendEmailRequest_def brevo_accepts_def)

text \<open>
  Claim C6, evaluated where it fails. The provider answers the registration of the
  author's address with an error that is not "already exists" (HTTP status not ok,
  code \<open>unauthorized\<close>) and accepts sends. The worker does not use what
  \<open>registerRecipientEmail\<close> returns: it goes on to send template 2 and acknowledges the
  message, where the claim asks for a retry without any send.
\<close>

theorem registration_failure_ignored:
  "registerRecipientEmail brevo_unauthorized (js ''alice@example.org'') [] =
     (Inr True, [Contacts (js ''alice@example.org'')]) \<and>
   handle_email brevo_unauthorized event_alice [] =
     (Inr Ack, [Contacts (js ''alice@example.org''),
                SmtpEmail 2 (Some (js ''alice@example.org'')) (js ''Alice'')])"
  by (simp add: event_alice_def handle_email_def registerRecipientEmail_def
      send_and_decide_def sendEmail_def postSendEmailRequest_def brevo_unauthorized_def)

theorem registration_failure_ignored_witness:
  "fst (handle_email brevo_unauthorized event_alice []) = Inr Ack \<and>
   filter (\<lambda>c. \<forall>a. c \<noteq> Contacts a) (snd (handle_email brevo_unauthorized event_alice [])) =
     [SmtpEmail 2 (Some (js ''alice@example.org'')) (js ''Alice'')]"
  using registration_failure_ignored by simp

subsection \<open>The CORS wrapper\<close>

lemma allowed_example_eq:
  "map trim (split 0x3B (ALLOWED_ORIGINS env_example)) = allowed_example"
  by (simp add: env_example_def allowed_example_def js_def trim_def isWhiteSpace_def)

lemma header_after_fold:
  "map_of (fold (\<lambda>(key, val). AList.update key val) (corsHeaders_entries v) hs)
     (js ''Access-Control-Allow-Origin'') = Some v"
  by (simp add: corsHeaders_entries_def update_conv')

lemma setCors_state:
  "snd (setCorsHeaderToResponse rx origin resp allowed ch) =
     (case origin of
        None \<Rightarrow> ch
      | Some s \<Rightarrow> if s \<noteq> [] \<and> is_allowed rx s allowed allowed then s else ch)"
  by (simp add: setCorsHeaderToResponse_def Let_def split: option.splits)

lemma corsHeaders_last_allowed:
  "fold (\<lambda>(origin, resp) ch. snd (setCorsHeaderToResponse rx origin resp allowed ch)) reqs ch0 =
     last (ch0 # [s. (Some s, resp) \<leftarrow> reqs, s \<noteq> [] \<and> is_allowed rx s allowed allowed])"
proof (induction reqs arbitrary: ch0)
  case Nil
  then show ?case by simp
next
  case (Cons req reqs)
  obtain origin resp where req: "req = (origin, resp)" by (cases req)
  show ?case
    unfolding req using Cons.IH
    by (cases origin) (simp_all add: setCors_state)
qed

text \<open>
  Claim C10. \<open>setCorsHeaderToResponse\<close> reads and writes the global \<open>corsHeaders\<close>. For
  a request with an \<open>Origin\<close>: when the origin is allowed, the global's
  \<open>Access-Control-Allow-Origin\<close> becomes that origin and the response carries it; when it
  is not allowed, the global is unchanged and the response carries the value the global
  holds, so that two runs on the same request from different states of the global give
  different response headers. After any sequence of requests the global holds the last
  allowed origin seen, or the empty string of load time when there was none.
\<close>

theorem corsHeaders_global_state:
  assumes "orig \<noteq> []"
  shows "(is_allowed rx orig allowed allowed \<longrightarrow>
           snd (setCorsHeaderToResponse rx (Some orig) resp allowed ch) = orig \<and>
           map_of (headers (fst (setCorsHeaderToResponse rx (Some orig) resp allowed ch)))
             (js ''Access-Control-Allow-Origin'') = Some orig) \<and>
         (\<not> is_allowed rx orig allowed allowed \<longrightarrow>
           snd (setCorsHeaderToResponse rx (Some orig) resp allowed ch) = ch \<and>
           map_of (headers (fst (setCorsHeaderToResponse rx (Some orig) resp allowed ch)))
             (js ''Access-Control-Allow-Origin'') = Some ch \<and>
           (\<forall>ch'. ch' \<noteq> ch \<longrightarrow>
              headers (fst (setCorsHeaderToResponse rx (Some orig) resp allowed ch')) \<noteq>
              headers (fst (setCorsHeaderToResponse rx (Some orig) resp allowed ch)))) \<and>
         fold (\<lambda>(origin, resp) ch. snd (setCorsHeaderToResponse rx origin resp allowed ch))
             reqs corsHeaders_init =
           last (corsHeaders_init #
                 [s. (Some s, resp) \<leftarrow> reqs, s \<noteq> [] \<and> is_allowed rx s allowed allowed])"
proof (intro conjI)
  show "is_allowed rx orig allowed allowed \<longrightarrow>
      snd (setCorsHeaderToResponse rx (Some orig) resp allowed ch) = orig \<and>
      map_of (headers (fst (setCorsHeaderToResponse rx (Some orig) resp allowed ch)))
        (js ''Access-Control-Allow-Origin'') = Some orig"
    using assms by (simp add: setCorsHeaderToResponse_def Let_def header_after_fold)
  show "\<not> is_allowed rx orig allowed allowed \<longrightarrow>
      snd (setCorsHeaderToResponse rx (Some orig) resp allowed ch) = ch \<and>
      map_of (headers (fst (setCorsHeaderToResponse rx (Some orig) resp allowed ch)))
        (js ''Access-Control-Allow-Origin'') = Some ch \<and>
      (\<forall>ch'. ch' \<noteq> ch \<longrightarrow>
         headers (fst (setCorsHeaderToResponse rx (Some orig) resp allowed ch')) \<noteq>
         headers (fst (setCorsHeaderToResponse rx (Some orig) resp allowed ch)))"
    using assms
    by (auto simp: setCorsHeaderToResponse_def Let_def header_after_fold
             dest!: arg_cong [where f = "\<lambda>h. map_of h (js ''Access-Control-Allow-Origin'')"])
  show "fold (\<lambda>(origin, resp) ch. snd (setCorsHeaderToResponse rx origin resp allowed ch))
        reqs corsHeaders_init =
      last (corsHeaders_init #
            [s. (Some s, resp) \<leftarrow> reqs, s \<noteq> [] \<and> is_allowed rx s allowed allowed])"
    by (rule corsHeaders_last_allowed)
qed

theorem corsHeaders_global_state_witness:
  "js ''https://sqybi.com'' \<noteq> [] \<and> js ''https://evil.example'' \<noteq> [] \<and>
   is_allowed (\<lambda>p s. False) (js ''https://sqybi.com'') allowed_example allowed_example \<and>
   \<not> is_allowed (\<lambda>p s. False) (js ''https://evil.example'') allowed_example allowed_example \<and>
   snd (setCorsHeaderToResponse (\<lambda>p s. False) (Some (js ''https://sqybi.com'')) response_ok
          allowed_example corsHeaders_init) = js ''https://sqybi.com'' \<and>
   map_of (headers (fst (setCorsHeaderToResponse (\<lambda>p s. False) (Some (js ''https://evil.example''))
          response_ok allowed_example corsHeaders_init)))
     (js ''Access-Control-Allow-Origin'') = Some [] \<and>
   map_of (headers (fst (setCorsHeaderToResponse (\<lambda>p s. False) (Some (js ''https://evil.example''))
          response_ok allowed_example (js ''https://sqybi.com''))))
     (js ''Access-Control-Allow-Origin'') = Some (js ''https://sqybi.com'') \<and>
   headers (fst (setCorsHeaderToResponse (\<lambda>p s. False) (Some (js ''https://evil.example''))
          response_ok allowed_example (js ''https://sqybi.com''))) \<noteq>
   headers (fst (setCorsHeaderToResponse (\<lambda>p s. False) (Some (js ''https://evil.example''))
          response_ok allowed_example corsHeaders_init))"
proof -
  have a: "is_allowed (\<lambda>p s. False) (js ''https://sqybi.com'') allowed_example allowed_example"
    by (simp add: allowed_example_def startsWith_def endsWith_def)
  have b: "\<not> is_allowed (\<lambda>p s. False) (js ''https://evil.example'') allowed_example allowed_example"
    by (simp add: allowed_example_def startsWith_def endsWith_def)
  have c: "js ''https://sqybi.com'' \<noteq> corsHeaders_init"
    by (simp add: corsHeaders_init_def)
  show ?thesis
    using a b c
      corsHeaders_global_state [of "js ''https://sqybi.com''" "\<lambda>p s. False" allowed_example
        response_ok corsHeaders_init "[]"]
      corsHeaders_global_state [of "js ''https://evil.example''" "\<lambda>p s. False" allowed_example
        response_ok corsHeaders_init "[]"]
      corsHeaders_global_state [of "js ''https://evil.example''" "\<lambda>p s. False" allowed_example
        response_ok "js ''https://sqybi.com''" "[]"]
    by (simp add: corsHeaders_init_def)
qed

subsection \<open>The POST branch\<close>

lemma getReponse_world:
  "COMMENT_DB (snd (getReponse e req r w)) = COMMENT_DB w"
  "MESSAGE_QUEUE (snd (getReponse e req r w)) = MESSAGE_QUEUE w"
  "EMAIL_QUEUE (snd (getReponse e req r w)) = EMAIL_QUEUE w"
  by (simp_all add: getReponse_def split: prod.splits)

lemma getReponse_status:
  "status (fst (getReponse e req (b, st, hs) w)) =
     (if truthy (Origin req) then (case st of None \<Rightarrow> 200 | Some n \<Rightarrow> n) else 400)"
  by (cases "Origin req")
     (simp_all add: getReponse_def setCorsHeaderToResponse_def Response_def Let_def
        split: option.splits)

lemma getReponse_body:
  "truthy (Origin req) \<Longrightarrow> body (fst (getReponse e req (b, st, hs) w)) = b"
  by (cases "Origin req")
     (simp_all add: getReponse_def setCorsHeaderToResponse_def Response_def Let_def)

lemma fetch_POST:
  assumes "pathname req = Some (js ''/comment'')" and "http_method req = js ''POST''"
    and "json req = Some ev"
  shows "fetch fuel e req w =
           Some (getReponse e req
                   (case fst (post_comment e ev w) of Inl err \<Rightarrow> catch err | Inr r \<Rightarrow> r)
                   (snd (post_comment e ev w)))"
  using assms by (simp add: fetch_def split: prod.splits sum.splits)

lemma first_by_id_None: "first_by_id rows n = None \<longleftrightarrow> n \<notin> r_id ` set rows"
  by (auto simp: first_by_id_def find_None_iff)


lemma first_by_uuid_inserted:
  "first_by_uuid (rows @ [inserted_row e ev level rows]) (randomUUID e) \<noteq> None"
proof -
  have "inserted_row e ev level rows \<in> set (rows @ [inserted_row e ev level rows])"
    by simp
  moreover have "r_uuid (inserted_row e ev level rows) = randomUUID e"
    by (simp add: inserted_row_def)
  ultimately show ?thesis
    unfolding first_by_uuid_def find_None_iff by blast
qed

lemma post_comment_missing_parent:
  assumes "parent_comment_id ev = Some n" and "n \<noteq> 0" and "n \<notin> r_id ` set (COMMENT_DB w)"
  shows "post_comment e ev w = (Inr (Text (js ''Parent comment not found''), Some 404, []), w)"
  using assms by (simp add: post_comment_def check_parent_def first_by_id_None [symmetric])

text \<open>What the POST branch does once the parent check has passed and the INSERT has
  succeeded: the row is stored, then the two sends are tried in order.\<close>

lemma post_comment_persisted:
  assumes "check_parent (COMMENT_DB w) ev = Inr (level, parent)" and "insert_error e = None"
  shows "\<exists>id_row.
           first_by_uuid (COMMENT_DB w @ [inserted_row e ev level (COMMENT_DB w)]) (randomUUID e) =
             Some id_row \<and>
           post_comment e ev w =
             (let row = inserted_row e ev level (COMMENT_DB w);
                  w1 = w\<lparr>COMMENT_DB := COMMENT_DB w @ [row]\<rparr>;
                  job = comment_properties_of e ev id_row;
                  w2 = w1\<lparr>MESSAGE_QUEUE := MESSAGE_QUEUE w @ [job]\<rparr>
              in if MESSAGE_QUEUE_rejects e then (Inl Error, w1)
                 else if truthy (email ev) then
                   (if EMAIL_QUEUE_rejects e then (Inl Error, w2)
                    else (Inr (Text (js ''OK''), None, []),
                          w2\<lparr>EMAIL_QUEUE := EMAIL_QUEUE w @ [email_event_of job parent]\<rparr>))
                 else (Inr (Text (js ''OK''), None, []), w2))"
proof -
  obtain id_row where
    "first_by_uuid (COMMENT_DB w @ [inserted_row e ev level (COMMENT_DB w)]) (randomUUID e) =
       Some id_row"
    using first_by_uuid_inserted [of "COMMENT_DB w" e ev level] by auto
  then show ?thesis using assms by (simp add: post_comment_def Let_def)
qed

lemma post_comment_not_persisted:
  assumes "\<not> (\<exists>level parent. check_parent (COMMENT_DB w) ev = Inr (level, parent) \<and>
              insert_error e = None)"
  shows "snd (post_comment e ev w) = w"
  using assms by (auto simp: post_comment_def split: sum.splits option.splits)

lemma env_example_fields:
  "regexp_test env_example = (\<lambda>pattern subject. False)"
  "markdownToHtml env_example = (\<lambda>markdown. js ''<p>'' @ markdown @ js ''</p>'')"
  "randomUUID env_example = js ''3b241101-e2bb-4255-8caf-4136c566a962''"
  "getTime env_example = 1730635200000"
  "insert_error env_example = None"
  "all_error env_example = (\<lambda>b. None)"
  "MESSAGE_QUEUE_rejects env_example = False"
  "EMAIL_QUEUE_rejects env_example = False"
  by (simp_all add: env_example_def)

lemma allowed_example_update [simp]:
  "map trim (split 0x3B (ALLOWED_ORIGINS (env_example\<lparr>MESSAGE_QUEUE_rejects := a\<rparr>))) = allowed_example"
  "map trim (split 0x3B (ALLOWED_ORIGINS (env_example\<lparr>EMAIL_QUEUE_rejects := a\<rparr>))) = allowed_example"
  by (simp_all add: allowed_example_eq)

lemma is_allowed_sqybi:
  "is_allowed (\<lambda>p s. False) (js ''https://sqybi.com'') allowed_example allowed_example"
  by (simp add: allowed_example_def startsWith_def endsWith_def)

lemmas post_eval =
  fetch_def post_comment_def check_parent_def first_by_id_def first_by_uuid_def
  inserted_row_def autoincrement_def comment_properties_of_def email_event_of_def
  getReponse_def setCorsHeaderToResponse_def Response_def request_post_def
  world_empty_def world_one_def row_first_def event_orphan_reply_def event_top_level_def
  event_reply_def env_example_fields allowed_example_eq is_allowed_sqybi outcome_def Let_def

text \<open>
  Claim C1, as amended. A POST to \<open>/comment\<close> whose \<open>parent_comment_id\<close> is a non-zero
  id that no row of the table has is answered and changes neither the table nor the two
  queues; the status is 404 when the request carries a non-empty \<open>Origin\<close> header, and
  the 400 of the CORS wrapper when it does not.
\<close>

theorem missing_parent_rejected:
  assumes "pathname req = Some (js ''/comment'')" and "http_method req = js ''POST''"
    and "json req = Some ev"
    and "parent_comment_id ev = Some n" and "n \<noteq> 0" and "n \<notin> r_id ` set (COMMENT_DB w)"
  shows "\<exists>resp w'. fetch fuel e req w = Some (resp, w') \<and>
           status resp = (if truthy (Origin req) then 404 else 400) \<and>
           COMMENT_DB w' = COMMENT_DB w \<and> MESSAGE_QUEUE w' = MESSAGE_QUEUE w \<and>
           EMAIL_QUEUE w' = EMAIL_QUEUE w"
proof -
  have "fetch fuel e req w =
      Some (getReponse e req (Text (js ''Parent comment not found''), Some 404, []) w)"
    using assms by (simp add: fetch_POST post_comment_missing_parent)
  then show ?thesis
    by (cases "getReponse e req (Text (js ''Parent comment not found''), Some 404, []) w")
       (use getReponse_status [of e req "Text (js ''Parent comment not found'')" "Some 404" "[]" w]
            getReponse_world [of e req "(Text (js ''Parent comment not found''), Some 404, [])" w]
        in auto)
qed

theorem missing_parent_rejected_witness:
  "parent_comment_id event_orphan_reply = Some 7 \<and>
   7 \<notin> r_id ` set (COMMENT_DB world_one) \<and>
   outcome (fetch 0 env_example (request_post (Some (js ''https://sqybi.com'')) event_orphan_reply)
              world_one) = Some (404, [1], [], 0)"
  using missing_parent_rejected [of "request_post (Some (js ''https://sqybi.com'')) event_orphan_reply"
      event_orphan_reply 7 world_one 0 env_example]
  by (auto simp: request_post_def event_orphan_reply_def world_one_def row_first_def outcome_def)

text \<open>
  Claim C1 as stated fails for a request without an \<open>Origin\<close> header: the parent is
  missing, and the answer is the wrapper's 400, not 404.
\<close>

theorem missing_parent_without_origin:
  "parent_comment_id event_orphan_reply = Some 7 \<and>
   7 \<notin> r_id ` set (COMMENT_DB world_one) \<and>
   fetch 0 env_example (request_post None event_orphan_reply) world_one =
     Some (\<lparr>body = Text (js ''Origin header not found''), status = 400, headers = []\<rparr>, world_one)"
  by (simp add: post_eval)

lemma check_parent_no_parent:
  "parent_comment_id ev = None \<or> parent_comment_id ev = Some 0 \<Longrightarrow>
   check_parent rows ev = Inr (Finite 0, None)"
  by (auto simp: check_parent_def)


lemma post_comment_stores:
  assumes "check_parent (COMMENT_DB w) ev = Inr (level, parent)" and "insert_error e = None"
  shows "COMMENT_DB (snd (post_comment e ev w)) =
           COMMENT_DB w @ [inserted_row e ev level (COMMENT_DB w)]"
  using post_comment_persisted [OF assms] by (auto simp: Let_def)


text \<open>The level of a reply: one above the parent's as long as that is an integer below
  \<open>2 ^ 53\<close> in absolute value, where the sum is exact.\<close>

lemma level_plus_one:
  "\<bar>l\<bar> < 2 ^ 53 \<Longrightarrow> number_plus (Finite (of_int l)) (Finite 1) = Finite (of_int (l + 1))"
  using round_double_int [of "l + 1"] by simp




text \<open>
  The levels the service stores stay in the range where the sum is exact: in every table
  the HTTP worker can have stored, of at most \<open>2 ^ 53\<close> rows, the level of a row is an
  integer from 0 up and below the number of rows.
\<close>

lemma check_parent_level:
  assumes "small_levels rows" and "int (length rows) < 2 ^ 53"
    and "check_parent rows ev = Inr (level, parent)"
  shows "\<exists>l. level = Finite (of_int l) \<and> 0 \<le> l \<and> l \<le> int (length rows)"
proof (cases "parent_comment_id ev = None \<or> parent_comment_id ev = Some 0")
  case True
  then have "level = Finite (of_int 0)"
    using assms(3) check_parent_no_parent [of ev rows] by simp
  then show ?thesis by (intro exI [of _ 0]) simp
next
  case False
  then obtain n where n: "parent_comment_id ev = Some n" "n \<noteq> 0" by auto
  with assms(3) obtain p where p: "find (\<lambda>r. r_id r = n) rows = Some p"
    and level: "level = number_plus (r_level p) (Finite 1)"
    by (auto simp: check_parent_def first_by_id_def split: option.splits)
  from p have "p \<in> set rows" by (auto simp: find_Some_iff in_set_conv_nth)
  with assms(1) obtain l where l: "r_level p = Finite (of_int l)" "0 \<le> l" "l < int (length rows)"
    unfolding small_levels_def by blast
  from l(3) assms(2) have "l < 2 ^ 53" by (rule less_trans)
  with l(2) have "\<bar>l\<bar> < 2 ^ 53" by (rule abs_of_nonneg [THEN ssubst])
  then have "number_plus (Finite (of_int l)) (Finite 1) = Finite (of_int (l + 1))"
    by (rule level_plus_one)
  then have "level = Finite (of_int (l + 1))"
    unfolding level l(1) .
  moreover have "0 \<le> l + 1" "l + 1 \<le> int (length rows)" using l(2,3) by linarith+
  ultimately show ?thesis by blast
qed


lemma small_levels_snoc:
  assumes "small_levels rows" and "r_level row = Finite (of_int l)" and "0 \<le> l"
    and "l \<le> int (length rows)"
  shows "small_levels (rows @ [row])"
  unfolding small_levels_def
proof
  fix r assume "r \<in> set (rows @ [row])"
  then consider "r \<in> set rows" | "r = row" by auto
  then show "\<exists>l. r_level r = Finite (of_int l) \<and> 0 \<le> l \<and> l < int (length (rows @ [row]))"
  proof cases
    case 1
    with assms(1) obtain k where "r_level r = Finite (of_int k)" "0 \<le> k" "k < int (length rows)"
      unfolding small_levels_def by blast
    moreover from this have "k < int (length (rows @ [row]))" by simp
    ultimately show ?thesis by blast
  next
    case 2
    have "l < int (length (rows @ [row]))" using assms(4) by simp
    with 2 assms(2,3) show ?thesis by blast
  qed
qed

lemma post_comment_small_levels:
  assumes "int (length (COMMENT_DB w)) \<le> 2 ^ 53 \<longrightarrow> small_levels (COMMENT_DB w)"
  shows "int (length (COMMENT_DB (snd (post_comment e ev w)))) \<le> 2 ^ 53 \<longrightarrow>
         small_levels (COMMENT_DB (snd (post_comment e ev w)))"
proof (cases "\<exists>level parent. check_parent (COMMENT_DB w) ev = Inr (level, parent) \<and> insert_error e = None")
  case True
  then obtain level parent where
    c: "check_parent (COMMENT_DB w) ev = Inr (level, parent)" and i: "insert_error e = None"
    by blast
  note s = post_comment_stores [OF c i]
  show ?thesis
  proof
    assume "int (length (COMMENT_DB (snd (post_comment e ev w)))) \<le> 2 ^ 53"
    then have "int (length (COMMENT_DB w)) + 1 \<le> 2 ^ 53" unfolding s by simp
    then have len: "int (length (COMMENT_DB w)) < 2 ^ 53" by linarith
    then have "int (length (COMMENT_DB w)) \<le> 2 ^ 53" by (rule less_imp_le)
    with assms have sl: "small_levels (COMMENT_DB w)" by blast
    from check_parent_level [OF sl len c] obtain l where
      l: "level = Finite (of_int l)" "0 \<le> l" "l \<le> int (length (COMMENT_DB w))" by blast
    have "r_level (inserted_row e ev level (COMMENT_DB w)) = Finite (of_int l)"
      unfolding l(1) by (simp add: inserted_row_def)
    from small_levels_snoc [OF sl this l(2,3)]
    show "small_levels (COMMENT_DB (snd (post_comment e ev w)))"
      unfolding s .
  qed
next
  case False
  then have "snd (post_comment e ev w) = w" by (rule post_comment_not_persisted)
  with assms show ?thesis by simp
qed

lemma fetch_small_levels:
  assumes "int (length (COMMENT_DB w)) \<le> 2 ^ 53 \<longrightarrow> small_levels (COMMENT_DB w)"
    and "fetch fuel e req w = Some (resp, w')"
  shows "int (length (COMMENT_DB w')) \<le> 2 ^ 53 \<longrightarrow> small_levels (COMMENT_DB w')"
proof -
  have "COMMENT_DB w' = COMMENT_DB w \<or>
      (\<exists>ev. COMMENT_DB (snd (post_comment e ev w)) = COMMENT_DB w')"
    using assms(2)
    by (auto simp: fetch_def getReponse_world
             split: if_splits option.splits sum.splits prod.splits
             dest!: arg_cong [where f = "\<lambda>p. COMMENT_DB (snd p)"])
  then show ?thesis using assms(1) post_comment_small_levels [of w e] by metis
qed

lemma stored_small_levels:
  "stored rows \<Longrightarrow> int (length rows) \<le> 2 ^ 53 \<longrightarrow> small_levels rows"
proof (induction rule: stored.induct)
  case empty
  show ?case by (simp add: small_levels_def)
next
  case (request w fuel e req resp w')
  from request.IH request.hyps(2) show ?case by (rule fetch_small_levels)
qed

lemma stored_levels:
  assumes "stored rows" and "int (length rows) \<le> 2 ^ 53" and "p \<in> set rows"
  shows "\<exists>l. r_level p = Finite (of_int l) \<and> 0 \<le> l \<and> \<bar>l\<bar> < 2 ^ 53"
proof -
  from stored_small_levels [OF assms(1)] assms(2) have "small_levels rows" by blast
  with assms(3) obtain l where l: "r_level p = Finite (of_int l)" "0 \<le> l" "l < int (length rows)"
    unfolding small_levels_def by blast
  from l(3) assms(2) have "l < 2 ^ 53" by (rule less_le_trans)
  with l(2) have "\<bar>l\<bar> < 2 ^ 53" by (rule abs_of_nonneg [THEN ssubst])
  with l(1,2) show ?thesis by blast
qed




lemma fetch_POST_persisted:
  assumes "pathname req = Some (js ''/comment'')" and "http_method req = js ''POST''"
    and "json req = Some ev"
    and "fetch fuel e req w = Some (resp, w')" and "COMMENT_DB w' \<noteq> COMMENT_DB w"
  obtains level parent id_row where
    "check_parent (COMMENT_DB w) ev = Inr (level, parent)" and "insert_error e = None"
    and "first_by_uuid (COMMENT_DB w @ [inserted_row e ev level (COMMENT_DB w)]) (randomUUID e) =
           Some id_row"
    and "post_comment e ev w =
           (let row = inserted_row e ev level (COMMENT_DB w);
                w1 = w\<lparr>COMMENT_DB := COMMENT_DB w @ [row]\<rparr>;
                job = comment_properties_of e ev id_row;
                w2 = w1\<lparr>MESSAGE_QUEUE := MESSAGE_QUEUE w @ [job]\<rparr>
            in if MESSAGE_QUEUE_rejects e then (Inl Error, w1)
               else if truthy (email ev) then
                 (if EMAIL_QUEUE_rejects e then (Inl Error, w2)
                  else (Inr (Text (js ''OK''), None, []),
                        w2\<lparr>EMAIL_QUEUE := EMAIL_QUEUE w @ [email_event_of job parent]\<rparr>))
               else (Inr (Text (js ''OK''), None, []), w2))"
    and "(resp, w') = getReponse e req
           (case fst (post_comment e ev w) of Inl err \<Rightarrow> catch err | Inr r \<Rightarrow> r)
           (snd (post_comment e ev w))"
proof -
  have f: "(resp, w') = getReponse e req
      (case fst (post_comment e ev w) of Inl err \<Rightarrow> catch err | Inr r \<Rightarrow> r)
      (snd (post_comment e ev w))"
    using fetch_POST [OF assms(1-3), of fuel e w] assms(4) by simp
  then have "COMMENT_DB w' = COMMENT_DB (snd (post_comment e ev w))"
    using getReponse_world(1) [of e req _ "snd (post_comment e ev w)"] by (metis snd_conv)
  with assms(5) have "snd (post_comment e ev w) \<noteq> w" by auto
  then obtain level parent where
    c: "check_parent (COMMENT_DB w) ev = Inr (level, parent)" and i: "insert_error e = None"
    using post_comment_not_persisted [of w ev e] by blast
  from post_comment_persisted [OF c i] f c i that show ?thesis by blast
qed




text \<open>
  A rejected send after the row is stored is never answered with a success. For a POST to
  \<open>/comment\<close> that has stored its row and whose send to a queue is rejected (the send to
  the message queue, or the send to the email queue that follows it when the author
  supplied an email): the exception reaches the \<open>catch\<close> block of \<open>fetch\<close>, the answer
  has status 500 with body \<open>Internal server error\<close> (the wrapper's 400 without an
  \<open>Origin\<close> header), and the row stays stored.
\<close>

lemma queue_rejection_is_fatal:
  assumes "pathname req = Some (js ''/comment'')" and "http_method req = js ''POST''"
    and "json req = Some ev"
    and "fetch fuel e req w = Some (resp, w')" and "COMMENT_DB w' \<noteq> COMMENT_DB w"
    and "MESSAGE_QUEUE_rejects e \<or> (truthy (email ev) \<and> EMAIL_QUEUE_rejects e)"
  shows "status resp = (if truthy (Origin req) then 500 else 400) \<and>
         (truthy (Origin req) \<longrightarrow> body resp = Text (js ''Internal server error'')) \<and>
         (\<exists>row. COMMENT_DB w' = COMMENT_DB w @ [row])"
proof -
  from assms(1-5) obtain level parent id_row where
    p: "post_comment e ev w =
           (let row = inserted_row e ev level (COMMENT_DB w);
                w1 = w\<lparr>COMMENT_DB := COMMENT_DB w @ [row]\<rparr>;
                job = comment_properties_of e ev id_row;
                w2 = w1\<lparr>MESSAGE_QUEUE := MESSAGE_QUEUE w @ [job]\<rparr>
            in if MESSAGE_QUEUE_rejects e then (Inl Error, w1)
               else if truthy (email ev) then
                 (if EMAIL_QUEUE_rejects e then (Inl Error, w2)
                  else (Inr (Text (js ''OK''), None, []),
                        w2\<lparr>EMAIL_QUEUE := EMAIL_QUEUE w @ [email_event_of job parent]\<rparr>))
               else (Inr (Text (js ''OK''), None, []), w2))"
    and f: "(resp, w') = getReponse e req
           (case fst (post_comment e ev w) of Inl err \<Rightarrow> catch err | Inr r \<Rightarrow> r)
           (snd (post_comment e ev w))"
    by (rule fetch_POST_persisted)
  have err: "fst (post_comment e ev w) = Inl Error"
    and db: "COMMENT_DB (snd (post_comment e ev w)) =
               COMMENT_DB w @ [inserted_row e ev level (COMMENT_DB w)]"
    using assms(6) unfolding p by (auto simp: Let_def)
  have r: "resp = fst (getReponse e req (Text (js ''Internal server error''), Some 500, [])
                    (snd (post_comment e ev w)))"
    and w': "w' = snd (getReponse e req (Text (js ''Internal server error''), Some 500, [])
                    (snd (post_comment e ev w)))"
    using arg_cong [OF f, of fst] arg_cong [OF f, of snd] err by simp_all
  show ?thesis
    unfolding r w' by (simp add: getReponse_status getReponse_body getReponse_world db)
qed

text \<open>
  Claim C5, evaluated where it fails. A POST to \<open>/comment\<close> from an allowed origin, by an
  author who supplied an email, meets an empty table and an email queue that rejects the
  send. The row (id 1) is stored and the IM job enqueued; the exception of the rejected
  send reaches the \<open>catch\<close> block of \<open>fetch\<close>, and the answer is status 500 with body
  \<open>Internal server error\<close>, where the claim asks for a success.
\<close>

theorem persisted_comment_answered_500:
  "truthy (email event_top_level) \<and>
   EMAIL_QUEUE_rejects env_email_queue_rejects \<and>
   COMMENT_DB world_empty = [] \<and>
   map_option (\<lambda>(resp, w). (status resp, body resp, map r_id (COMMENT_DB w),
                             map tg_comment_id (MESSAGE_QUEUE w), length (EMAIL_QUEUE w)))
     (fetch 0 env_email_queue_rejects
        (request_post (Some (js ''https://sqybi.com'')) event_top_level) world_empty) =
     Some (500, Text (js ''Internal server error''), [1], [1], 0)"
  by (simp add: post_eval env_email_queue_rejects_def)

theorem persisted_comment_answered_500_witness:
  "map_option (\<lambda>(resp, w). status resp)
     (fetch 0 env_email_queue_rejects
        (request_post (Some (js ''https://sqybi.com'')) event_top_level) world_empty) =
     Some 500"
  using persisted_comment_answered_500 by (auto simp: map_option_case split: option.splits)

subsection \<open>The GET branch\<close>

lemma StringToNumber_empty [simp]: "StringToNumber [] = Finite 0"
  by (simp add: StringToNumber_def trim_def)

lemma Number_blank: "Number (Str (js '' '')) = Finite 0"
  by (simp add: StringToNumber_def trim_def js_def isWhiteSpace_def)

lemma Number_examples:
  "Number (Str (js ''12'')) = Finite 12"
  "Number (Str (js ''abc'')) = NaN"
  by code_simp+

text \<open>With base type \<open>article\<close> the id check never fires: the id is a string (or
  \<open>null\<close>), which \<open>Number.isInteger\<close> never accepts, whatever it looks like.\<close>

lemma get_comments_article:
  assumes "comment_base_type req = Some (js ''article'')"
  shows "get_comments fuel e req w =
           map_option (map_sum (\<lambda>x. x) (\<lambda>comments. (Json comments, None, [])))
             (recursiveQuery fuel (all_error e) (COMMENT_DB w) (BaseArticle (comment_base_id req))
                (is_recursive req = Some (js ''true'')))"
  using assms by (simp add: get_comments_def Let_def split: option.splits)

text \<open>With base type \<open>comment\<close> the answer is the 400 of the id check exactly when
  \<open>Number\<close> of the id is not an integer.\<close>

lemma get_comments_comment_400:
  assumes "comment_base_type req = Some (js ''comment'')"
  shows "get_comments fuel e req w = Some (Inr (Text (js ''Invalid comment ID''), Some 400, [])) \<longleftrightarrow>
           \<not> Number_isInteger
               (Num (Number (case comment_base_id req of None \<Rightarrow> Null | Some s \<Rightarrow> Str s)))"
proof -
  have neq: "map_option (map_sum (\<lambda>x. x) (\<lambda>comments. (Json comments, None, []))) r \<noteq>
      Some (Inr (Text (js ''Invalid comment ID''), Some 400, []))"
    for r :: "(error + Comment list) option"
  proof (cases r)
    case None
    then show ?thesis by simp
  next
    case (Some a)
    then show ?thesis by (cases a) simp_all
  qed
  show ?thesis
    using assms neq
    by (cases "Number (case comment_base_id req of None \<Rightarrow> Null | Some s \<Rightarrow> Str s)")
       (auto simp: get_comments_def Let_def)
qed

text \<open>
  Claim C9, evaluated where it fails. The id of a GET with base type \<open>comment\<close> is the
  empty string, which denotes no integer; \<open>Number\<close> converts it to 0, the id check
  passes, and the answer is 200 with the comments whose \<open>parent_id\<close> is 0, where the
  claim asks for 400.
\<close>

theorem empty_comment_id_accepted:
  "Number (Str (js '''')) = Finite 0 \<and>
   map_option (\<lambda>(resp, w). (status resp, body resp))
     (fetch 1 env_example
        (request_get (Some (js ''https://sqybi.com'')) (js ''comment'') (js '''') (js ''false''))
        world_one) =
     Some (200, Json [Comment 1 (js ''Bob'') (js ''bob@example.org'') (js '''') (js ''<p>First</p>'')
                        1730600000000 []])"
  by (simp add: fetch_def get_comments_def request_get_def getReponse_def
      setCorsHeaderToResponse_def Response_def allowed_example_eq is_allowed_sqybi
      env_example_fields world_one_def row_first_def comment_of_def Let_def)

theorem empty_comment_id_accepted_witness:
  "map_option (\<lambda>(resp, w). status resp)
     (fetch 1 env_example
        (request_get (Some (js ''https://sqybi.com'')) (js ''comment'') (js '''') (js ''false''))
        world_one) = Some 200"
  using empty_comment_id_accepted by (auto simp: map_option_case split: option.splits)

subsection \<open>The tree query\<close>

lemma results_loop_flat:
  "results_loop fuel errs db rs False = Some (Inr (map (\<lambda>r. comment_of r []) rs))"
  by (induction rs) simp_all

lemma recursiveQuery_flat:
  "errs b = None \<Longrightarrow>
   recursiveQuery (Suc fuel) errs db b False =
     Some (Inr (map (\<lambda>r. comment_of r []) (query_all db b)))"
  by (simp add: results_loop_flat)

lemma filter_above_less:
  assumes "r \<in> set db" and "n < r_id r"
  shows "length (filter (\<lambda>x. r_id r < r_id x) db) < length (filter (\<lambda>x. n < r_id x) db)"
proof -
  have "filter (\<lambda>x. r_id r < r_id x) db = filter (\<lambda>x. r_id r < r_id x) (filter (\<lambda>x. n < r_id x) db)"
    using assms(2) by (auto intro: filter_cong)
  moreover have "r \<in> set (filter (\<lambda>x. n < r_id x) db)" using assms by simp
  ultimately show ?thesis
    using length_filter_less [of r "filter (\<lambda>x. n < r_id x) db" "\<lambda>x. r_id r < r_id x"] by simp
qed

lemma above_child:
  assumes "parents_first db" and "r \<in> set (query_all db b)"
  shows "above db (BaseComment (r_id r)) < above db b"
proof (cases b)
  case (BaseArticle a)
  with assms(2) obtain s where "a = Some s" "r \<in> set db" "r_parent_id r = 0"
    by (cases a) auto
  moreover from this assms(1) have "0 < r_id r" by (auto simp: parents_first_def)
  ultimately show ?thesis using BaseArticle filter_above_less [of r db 0] by simp
next
  case (BaseComment n)
  with assms(2) have "r \<in> set db" "r_parent_id r = n" by auto
  moreover from this assms(1) have "n < r_id r" by (auto simp: parents_first_def)
  ultimately show ?thesis using BaseComment filter_above_less [of r db n] by simp
qed

lemma above_le: "above db b \<le> length db"
  by (cases b) simp_all

lemma subcomments_comment_of:
  "subcomments (comment_of r cs) = comment_of r cs # concat (map subcomments cs)"
  by (simp add: comment_of_def)

lemma comment_of_sel [simp]:
  "children (comment_of r cs) = cs" "c_id (comment_of r cs) = r_id r"
  by (simp_all add: comment_of_def)

lemma results_loop_full_depth:
  assumes rec: "\<And>r. r \<in> set rs \<Longrightarrow>
      full_depth db (recursiveQuery fuel errs db (BaseComment (r_id r)) True)
        (query_all db (BaseComment (r_id r)))"
  shows "full_depth db (results_loop fuel errs db rs True) rs"
  using rec
proof (induction rs)
  case Nil
  then show ?case by (simp add: full_depth_def built_from_def)
next
  case (Cons r rs)
  from Cons.prems [of r] obtain subs where
    subs: "recursiveQuery fuel errs db (BaseComment (r_id r)) True = Some (Inr subs)"
    "built_from subs (query_all db (BaseComment (r_id r)))"
    "\<forall>c \<in> set (concat (map subcomments subs)).
       built_from (children c) (query_all db (BaseComment (c_id c)))"
    by (auto simp: full_depth_def)
  from Cons.IH Cons.prems obtain cs where
    cs: "results_loop fuel errs db rs True = Some (Inr cs)" "built_from cs rs"
    "\<forall>c \<in> set (concat (map subcomments cs)).
       built_from (children c) (query_all db (BaseComment (c_id c)))"
    by (auto simp: full_depth_def)
  have "results_loop fuel errs db (r # rs) True = Some (Inr (comment_of r subs # cs))"
    using subs(1) cs(1) by simp
  moreover have "built_from (comment_of r subs # cs) (r # rs)"
    using cs(2) by (simp add: built_from_def)
  moreover have "\<forall>c \<in> set (concat (map subcomments (comment_of r subs # cs))).
      built_from (children c) (query_all db (BaseComment (c_id c)))"
    using subs(2,3) cs(3) by (auto simp: subcomments_comment_of)
  ultimately show ?case unfolding full_depth_def by blast
qed

lemma recursiveQuery_full_depth:
  assumes "parents_first db" and "\<And>b. errs b = None"
  shows "above db b < fuel \<Longrightarrow>
         full_depth db (recursiveQuery fuel errs db b True) (query_all db b)"
proof (induction fuel arbitrary: b)
  case 0
  then show ?case by simp
next
  case (Suc fuel)
  have "full_depth db (results_loop fuel errs db (query_all db b) True) (query_all db b)"
  proof (rule results_loop_full_depth)
    fix r assume r: "r \<in> set (query_all db b)"
    have "above db (BaseComment (r_id r)) < above db b" using assms(1) r by (rule above_child)
    with Suc.prems have "above db (BaseComment (r_id r)) < fuel" by simp
    then show "full_depth db (recursiveQuery fuel errs db (BaseComment (r_id r)) True)
        (query_all db (BaseComment (r_id r)))" by (rule Suc.IH)
  qed
  then show ?case using assms(2) [of b] by simp
qed

text \<open>More fuel does not change what a call returns.\<close>

lemma results_loop_Cons_True:
  "results_loop fuel errs db (r # rs) True =
     (case recursiveQuery fuel errs db (BaseComment (r_id r)) True of
        None \<Rightarrow> None
      | Some (Inl e) \<Rightarrow> Some (Inl e)
      | Some (Inr subs) \<Rightarrow>
          (case results_loop fuel errs db rs True of
             None \<Rightarrow> None
           | Some (Inl e) \<Rightarrow> Some (Inl e)
           | Some (Inr cs) \<Rightarrow> Some (Inr (comment_of r subs # cs))))"
  by simp

lemma results_loop_fuel_step:
  assumes rec: "\<And>b is_rec res. recursiveQuery fuel errs db b is_rec = Some res \<Longrightarrow>
      recursiveQuery (Suc fuel) errs db b is_rec = Some res"
  shows "results_loop fuel errs db rs is_rec = Some res \<Longrightarrow>
         results_loop (Suc fuel) errs db rs is_rec = Some res"
proof (induction rs arbitrary: res)
  case Nil
  then show ?case by simp
next
  case (Cons r rs)
  show ?case
  proof (cases is_rec)
    case False
    with Cons show ?thesis by (auto split: option.splits sum.splits)
  next
    case True
    from Cons.prems True obtain sub where
      sub: "recursiveQuery fuel errs db (BaseComment (r_id r)) True = Some sub"
      by (cases "recursiveQuery fuel errs db (BaseComment (r_id r)) True")
         (simp_all only: results_loop_Cons_True option.case)
    note sub' = rec [OF sub]
    have "results_loop (Suc fuel) errs db (r # rs) True = results_loop fuel errs db (r # rs) True"
    proof (cases sub)
      case (Inl e)
      then show ?thesis
        using sub sub' by (simp only: results_loop_Cons_True option.case sum.case)
    next
      case (Inr subs)
      from Cons.prems True sub Inr obtain rest where
        rest: "results_loop fuel errs db rs True = Some rest"
        by (cases "results_loop fuel errs db rs True")
           (simp_all only: results_loop_Cons_True option.case sum.case)
      from Cons.IH [of rest] rest True
      have rest': "results_loop (Suc fuel) errs db rs True = Some rest" by simp
      show ?thesis
        using sub sub' Inr rest rest'
        by (simp only: results_loop_Cons_True option.case sum.case)
    qed
    with Cons.prems True show ?thesis by simp
  qed
qed

lemma recursiveQuery_fuel_step:
  "recursiveQuery fuel errs db b is_rec = Some res \<Longrightarrow>
   recursiveQuery (Suc fuel) errs db b is_rec = Some res"
proof (induction fuel arbitrary: b is_rec res)
  case 0
  then show ?case by simp
next
  case (Suc fuel)
  show ?case
  proof (cases "errs b")
    case None
    with Suc.prems have "results_loop fuel errs db (query_all db b) is_rec = Some res" by simp
    then have "results_loop (Suc fuel) errs db (query_all db b) is_rec = Some res"
      by (rule results_loop_fuel_step [rotated]) (rule Suc.IH)
    with None show ?thesis by simp
  next
    case (Some e)
    with Suc.prems show ?thesis by simp
  qed
qed

lemma recursiveQuery_fuel_mono:
  "recursiveQuery fuel errs db b is_rec = Some res \<Longrightarrow>
   recursiveQuery (fuel + k) errs db b is_rec = Some res"
proof (induction k)
  case 0
  then show ?case by simp
next
  case (Suc k)
  then have "recursiveQuery (fuel + k) errs db b is_rec = Some res" by simp
  then have "recursiveQuery (Suc (fuel + k)) errs db b is_rec = Some res"
    by (rule recursiveQuery_fuel_step)
  then show ?case by (simp only: add_Suc_right)
qed

text \<open>The POST branch keeps the table in the order that the recursive query needs.\<close>

lemma fold_max_bounds:
  "(a::int) \<le> fold max xs a \<and> (\<forall>x \<in> set xs. x \<le> fold max xs a)"
proof (induction xs arbitrary: a)
  case Nil
  then show ?case by simp
next
  case (Cons x xs)
  from Cons.IH [of "max x a"] show ?case by auto
qed

lemma autoincrement_above:
  "0 < autoincrement rows" "r \<in> set rows \<Longrightarrow> r_id r < autoincrement rows"
  using fold_max_bounds [of 0 "map r_id rows"] by (auto simp: autoincrement_def)

lemma check_parent_below:
  assumes "check_parent rows ev = Inr (level, parent)"
  shows "r_parent_id (inserted_row e ev level rows) < r_id (inserted_row e ev level rows)"
proof (cases "parent_comment_id ev")
  case None
  then show ?thesis using autoincrement_above(1) [of rows] by (simp add: inserted_row_def)
next
  case (Some n)
  show ?thesis
  proof (cases "n = 0")
    case True
    with Some show ?thesis using autoincrement_above(1) [of rows] by (simp add: inserted_row_def)
  next
    case False
    with Some assms obtain p where "find (\<lambda>r. r_id r = n) rows = Some p"
      by (auto simp: check_parent_def first_by_id_def split: option.splits)
    then have "p \<in> set rows" "r_id p = n" by (auto simp: find_Some_iff in_set_conv_nth)
    then show ?thesis using Some autoincrement_above(2) [of p rows] by (simp add: inserted_row_def)
  qed
qed

lemma post_comment_parents_first:
  assumes "parents_first (COMMENT_DB w)"
  shows "parents_first (COMMENT_DB (snd (post_comment e ev w)))"
proof (cases "\<exists>level parent. check_parent (COMMENT_DB w) ev = Inr (level, parent) \<and> insert_error e = None")
  case True
  then obtain level parent where
    c: "check_parent (COMMENT_DB w) ev = Inr (level, parent)" and i: "insert_error e = None"
    by blast
  show ?thesis
    using assms check_parent_below [OF c, of e] post_comment_stores [OF c i]
    by (simp add: parents_first_def)
next
  case False
  then show ?thesis using assms by (simp add: post_comment_not_persisted)
qed

lemma fetch_parents_first:
  assumes "parents_first (COMMENT_DB w)" and "fetch fuel e req w = Some (resp, w')"
  shows "parents_first (COMMENT_DB w')"
proof -
  have "COMMENT_DB w' = COMMENT_DB w \<or>
      (\<exists>ev. COMMENT_DB (snd (post_comment e ev w)) = COMMENT_DB w')"
    using assms(2)
    by (auto simp: fetch_def getReponse_world
             split: if_splits option.splits sum.splits prod.splits
             dest!: arg_cong [where f = "\<lambda>p. COMMENT_DB (snd p)"])
  then show ?thesis using assms(1) post_comment_parents_first [of w e] by metis
qed

lemma stored_parents_first: "stored rows \<Longrightarrow> parents_first rows"
proof (induction rule: stored.induct)
  case empty
  then show ?case by (simp add: parents_first_def)
next
  case (request w fuel e req resp w')
  then show ?case by (auto intro: fetch_parents_first)
qed

text \<open>On a table in which parents precede their children the query returns, whatever
  the reads report: the calls nest no deeper than the table has rows.\<close>

lemma results_loop_returns:
  assumes "\<And>r. r \<in> set rs \<Longrightarrow>
      recursiveQuery fuel errs db (BaseComment (r_id r)) True \<noteq> None"
  shows "results_loop fuel errs db rs is_rec \<noteq> None"
  using assms
proof (induction rs)
  case Nil
  then show ?case by simp
next
  case (Cons r rs)
  then have "results_loop fuel errs db rs is_rec \<noteq> None" by simp
  moreover have "recursiveQuery fuel errs db (BaseComment (r_id r)) True \<noteq> None"
    using Cons.prems by simp
  ultimately show ?case by (cases is_rec) (auto split: option.splits sum.splits)
qed

lemma recursiveQuery_returns:
  assumes "parents_first db"
  shows "above db b < fuel \<Longrightarrow> recursiveQuery fuel errs db b is_rec \<noteq> None"
proof (induction fuel arbitrary: b is_rec)
  case 0
  then show ?case by simp
next
  case (Suc fuel)
  show ?case
  proof (cases "errs b")
    case None
    have "results_loop fuel errs db (query_all db b) is_rec \<noteq> None"
    proof (rule results_loop_returns)
      fix r assume "r \<in> set (query_all db b)"
      with assms have "above db (BaseComment (r_id r)) < above db b" by (rule above_child)
      with Suc.prems have "above db (BaseComment (r_id r)) < fuel" by simp
      then show "recursiveQuery fuel errs db (BaseComment (r_id r)) True \<noteq> None"
        by (rule Suc.IH)
    qed
    with None show ?thesis by simp
  next
    case (Some e)
    then show ?thesis by simp
  qed
qed

lemma fetch_returns:
  assumes "parents_first (COMMENT_DB w)" and "length (COMMENT_DB w) < fuel"
  shows "fetch fuel e req w \<noteq> None"
proof -
  have "recursiveQuery fuel (all_error e) (COMMENT_DB w) b is_rec \<noteq> None" for b is_rec
    using assms above_le [of "COMMENT_DB w" b]
    by (intro recursiveQuery_returns) simp_all
  then have "get_comments fuel e req w \<noteq> None"
    by (auto simp: get_comments_def Let_def split: number.splits)
  then show ?thesis
    by (auto simp: fetch_def split: option.splits sum.splits prod.splits)
qed

lemma comment_of_node_of: "c = comment_of r cs \<Longrightarrow> node_of c r"
  by (simp add: node_of_def comment_of_def)

lemma built_from_node_of: "built_from cs rows \<Longrightarrow> list_all2 node_of cs rows"
  unfolding built_from_def by (erule list_all2_mono) (rule comment_of_node_of)

lemma recursiveQuery_nodes:
  assumes "parents_first db" and "\<And>b. errs b = None" and "length db < fuel"
  shows "\<exists>cs. recursiveQuery fuel errs db b True = Some (Inr cs) \<and>
      list_all2 node_of cs (query_all db b) \<and>
      (\<forall>c \<in> set (concat (map subcomments cs)).
         list_all2 node_of (children c) (filter (\<lambda>r. r_parent_id r = c_id c) db))"
proof -
  have "above db b < fuel" using assms(3) above_le [of db b] by simp
  with assms(1,2) have "full_depth db (recursiveQuery fuel errs db b True) (query_all db b)"
    by (intro recursiveQuery_full_depth) simp_all
  then obtain cs where cs: "recursiveQuery fuel errs db b True = Some (Inr cs)"
      "built_from cs (query_all db b)"
      "\<forall>c \<in> set (concat (map subcomments cs)).
         built_from (children c) (query_all db (BaseComment (c_id c)))"
    unfolding full_depth_def by blast
  have "list_all2 node_of cs (query_all db b)"
    using cs(2) by (rule built_from_node_of)
  moreover have "\<forall>c \<in> set (concat (map subcomments cs)).
      list_all2 node_of (children c) (filter (\<lambda>r. r_parent_id r = c_id c) db)"
  proof
    fix c assume "c \<in> set (concat (map subcomments cs))"
    with cs(3) have "built_from (children c) (query_all db (BaseComment (c_id c)))" by blast
    then have "list_all2 node_of (children c) (query_all db (BaseComment (c_id c)))"
      by (rule built_from_node_of)
    then show "list_all2 node_of (children c) (filter (\<lambda>r. r_parent_id r = c_id c) db)"
      by simp
  qed
  ultimately show ?thesis using cs(1) by blast
qed

text \<open>
  Claim C4. The immediate children of an article are the rows of that article whose
  \<open>parent_id\<close> is 0, those of a comment the rows whose \<open>parent_id\<close> is its id, both in
  store order. For every table and base whose read succeeds, \<open>recursiveQuery\<close> with
  \<open>is_recursive = false\<close> returns exactly one node for each immediate child of the base,
  carrying the id, author name, email, website, HTML content and time stamp of the row,
  with an empty \<open>children\<close> array. With \<open>is_recursive = true\<close>, on a table in which
  parents precede their children (as in every table the POST branch builds) and whose
  reads succeed, the call returns (within as many nested calls as the table has rows, plus
  one); its result has one node for each of the same immediate children, carrying the same
  fields, and every node of the trees, at any depth, has as children the nodes of the rows
  whose \<open>parent_id\<close> is its id.
\<close>

theorem recursiveQuery_tree:
  "(errs (BaseArticle (Some a)) = None \<longrightarrow>
      recursiveQuery (Suc fuel) errs db (BaseArticle (Some a)) False =
        Some (Inr (map (\<lambda>r. Comment (r_id r) (r_author_name r) (r_author_email r)
                              (r_author_website r) (r_html_content r)
                              (r_comment_timestamp_ms r) [])
                     (filter (\<lambda>r. r_article_id r = a \<and> r_parent_id r = 0) db)))) \<and>
   (errs (BaseComment n) = None \<longrightarrow>
      recursiveQuery (Suc fuel) errs db (BaseComment n) False =
        Some (Inr (map (\<lambda>r. Comment (r_id r) (r_author_name r) (r_author_email r)
                              (r_author_website r) (r_html_content r)
                              (r_comment_timestamp_ms r) [])
                     (filter (\<lambda>r. r_parent_id r = n) db)))) \<and>
   (parents_first db \<and> (\<forall>b. errs b = None) \<and> length db < fuel \<longrightarrow>
      (\<exists>cs. recursiveQuery fuel errs db (BaseArticle (Some a)) True = Some (Inr cs) \<and>
            list_all2 node_of cs (filter (\<lambda>r. r_article_id r = a \<and> r_parent_id r = 0) db) \<and>
            (\<forall>c \<in> set (concat (map subcomments cs)).
               list_all2 node_of (children c) (filter (\<lambda>r. r_parent_id r = c_id c) db))) \<and>
      (\<exists>cs. recursiveQuery fuel errs db (BaseComment n) True = Some (Inr cs) \<and>
            list_all2 node_of cs (filter (\<lambda>r. r_parent_id r = n) db) \<and>
            (\<forall>c \<in> set (concat (map subcomments cs)).
               list_all2 node_of (children c) (filter (\<lambda>r. r_parent_id r = c_id c) db))))"
proof (intro conjI impI)
  assume "errs (BaseArticle (Some a)) = None"
  then show "recursiveQuery (Suc fuel) errs db (BaseArticle (Some a)) False =
      Some (Inr (map (\<lambda>r. Comment (r_id r) (r_author_name r) (r_author_email r)
                            (r_author_website r) (r_html_content r)
                            (r_comment_timestamp_ms r) [])
                   (filter (\<lambda>r. r_article_id r = a \<and> r_parent_id r = 0) db)))"
    using recursiveQuery_flat [of errs "BaseArticle (Some a)" fuel db]
    by (simp add: comment_of_def)
next
  assume "errs (BaseComment n) = None"
  then show "recursiveQuery (Suc fuel) errs db (BaseComment n) False =
      Some (Inr (map (\<lambda>r. Comment (r_id r) (r_author_name r) (r_author_email r)
                            (r_author_website r) (r_html_content r)
                            (r_comment_timestamp_ms r) [])
                   (filter (\<lambda>r. r_parent_id r = n) db)))"
    using recursiveQuery_flat [of errs "BaseComment n" fuel db]
    by (simp add: comment_of_def)
next
  assume a: "parents_first db \<and> (\<forall>b. errs b = None) \<and> length db < fuel"
  then show "\<exists>cs. recursiveQuery fuel errs db (BaseArticle (Some a)) True = Some (Inr cs) \<and>
      list_all2 node_of cs (filter (\<lambda>r. r_article_id r = a \<and> r_parent_id r = 0) db) \<and>
      (\<forall>c \<in> set (concat (map subcomments cs)).
         list_all2 node_of (children c) (filter (\<lambda>r. r_parent_id r = c_id c) db))"
    using recursiveQuery_nodes [of db errs fuel "BaseArticle (Some a)"] by simp
next
  assume a: "parents_first db \<and> (\<forall>b. errs b = None) \<and> length db < fuel"
  then show "\<exists>cs. recursiveQuery fuel errs db (BaseComment n) True = Some (Inr cs) \<and>
      list_all2 node_of cs (filter (\<lambda>r. r_parent_id r = n) db) \<and>
      (\<forall>c \<in> set (concat (map subcomments cs)).
         list_all2 node_of (children c) (filter (\<lambda>r. r_parent_id r = c_id c) db))"
    using recursiveQuery_nodes [of db errs fuel "BaseComment n"] by simp
qed

theorem recursiveQuery_tree_witness:
  "parents_first [row_first, row_second, row_third] \<and>
   recursiveQuery (Suc 0) (\<lambda>b. None) [row_first, row_second, row_third]
       (BaseArticle (Some (js ''hello-world''))) False =
     Some (Inr [Comment 1 (js ''Bob'') (js ''bob@example.org'') (js []) (js ''<p>First</p>'')
                  1730600000000 []]) \<and>
   recursiveQuery (Suc 0) (\<lambda>b. None) [row_first, row_second, row_third]
       (BaseComment 1) False =
     Some (Inr [Comment 2 (js ''Alice'') (js []) (js []) (js ''<p>Thanks!</p>'')
                  1730635200000 []]) \<and>
   recursiveQuery (Suc (Suc (Suc (Suc 0)))) (\<lambda>b. None) [row_first, row_second, row_third]
       (BaseArticle (Some (js ''hello-world''))) True =
     Some (Inr [Comment 1 (js ''Bob'') (js ''bob@example.org'') (js []) (js ''<p>First</p>'')
                  1730600000000
                  [Comment 2 (js ''Alice'') (js []) (js []) (js ''<p>Thanks!</p>'')
                     1730635200000
                     [Comment 3 (js ''Bob'') (js ''bob@example.org'') (js [])
                        (js ''<p>Welcome</p>'') 1730640000000 []]]]) \<and>
   recursiveQuery (Suc (Suc (Suc (Suc 0)))) (\<lambda>b. None) [row_first, row_second, row_third]
       (BaseComment 1) True =
     Some (Inr [Comment 2 (js ''Alice'') (js []) (js []) (js ''<p>Thanks!</p>'')
                  1730635200000
                  [Comment 3 (js ''Bob'') (js ''bob@example.org'') (js [])
                     (js ''<p>Welcome</p>'') 1730640000000 []]])"
proof -
  have p: "parents_first [row_first, row_second, row_third]"
    by (simp add: parents_first_def row_first_def row_second_def row_third_def)
  show ?thesis
    using p recursiveQuery_tree [of "\<lambda>b. None" "js ''hello-world''" 0
        "[row_first, row_second, row_third]" 1]
      recursiveQuery_tree [of "\<lambda>b. None" "js ''hello-world''"
        "Suc (Suc (Suc (Suc 0)))" "[row_first, row_second, row_third]" 1]
    by (simp add: row_first_def row_second_def row_third_def comment_of_def)
qed

end
